theory Spec2Isabelle
  imports Main
begin

section \<open>The path-segment wildcard matcher (rbac.go, MatchKeyByPart)\<close>

text \<open>
  Go strings are byte sequences; \<open>len\<close>, indexing and slicing count bytes. They are
  modelled as \<open>string\<close> (a list of \<open>char\<close>, one per byte). The separator \<open>/\<close> and the
  wildcard \<open>*\<close> are single bytes.
\<close>

text \<open>
  \<open>strings.Split(s, "/")\<close>: the substrings between the separators, always at least one
  (the empty string splits into one empty segment).
\<close>

fun strings_Split :: "string \<Rightarrow> char \<Rightarrow> string list" where
  "strings_Split [] sep = [[]]"
| "strings_Split (c # cs) sep =
     (if c = sep then [] # strings_Split cs sep
      else (case strings_Split cs sep of
              [] \<Rightarrow> [[c]]
            | w # ws \<Rightarrow> (c # w) # ws))"

text \<open>\<open>strings.Index(s, "*")\<close>: the index of the first occurrence, or \<open>-1\<close>.\<close>

fun strings_Index :: "string \<Rightarrow> char \<Rightarrow> int" where
  "strings_Index [] c = - 1"
| "strings_Index (x # xs) c =
     (if x = c then 0
      else (let j = strings_Index xs c in if j = - 1 then - 1 else j + 1))"

text \<open>
  The body of the loop \<open>for i, key2Val := range key2Vals\<close>, with \<open>key1Val := key1Vals[i]\<close>.
  The loop is entered only with equally long slices; the second equation is the index out of
  range that the length check excludes. The slices \<open>key1Val[:j]\<close> and \<open>key2Val[:j]\<close> are
  \<open>take (nat j)\<close>; lemma \<open>strings_Index_less\<close> below shows that \<open>j\<close> is within bounds at
  both places.
\<close>

fun match_parts :: "string list \<Rightarrow> string list \<Rightarrow> bool" where
  "match_parts key1Vals [] = True"
| "match_parts [] (key2Val # key2Vals) = False"
| "match_parts (key1Val # key1Vals) (key2Val # key2Vals) =
     (if key2Val = [] \<or> key1Val = [] then False
      else (let j = strings_Index key2Val (CHR ''*'') in
        if j = - 1 then
          (if key1Val \<noteq> key2Val then False else match_parts key1Vals key2Vals)
        else if int (length key1Val) > j then
          (if take (nat j) key1Val \<noteq> take (nat j) key2Val then False
           else match_parts key1Vals key2Vals)
        else
          (if key1Val \<noteq> take (nat j) key2Val then False
           else match_parts key1Vals key2Vals)))"

definition MatchKeyByPart :: "string \<Rightarrow> string \<Rightarrow> bool" where
  "MatchKeyByPart key1 key2 =
     (if key2 = ''*'' then True
      else (let key1Vals = strings_Split key1 (CHR ''/'');
                key2Vals = strings_Split key2 (CHR ''/'')
            in if length key1Vals \<noteq> length key2Vals \<or> length key1Vals = 0 then False
               else match_parts key1Vals key2Vals))"

text \<open>
  The condition the specification puts on one pair of segments \<open>(p, q)\<close>: without a wildcard
  in \<open>q\<close> the segments are equal; with the first wildcard at index \<open>j\<close>, a longer \<open>p\<close> agrees
  with \<open>q\<close> on the first \<open>j\<close> bytes, and a \<open>p\<close> of at most \<open>j\<close> bytes is \<open>q[:j]\<close>.
\<close>

definition first_star :: "string \<Rightarrow> nat" where
  "first_star q = length (takeWhile (\<lambda>c. c \<noteq> CHR ''*'') q)"

definition segment_matches :: "string \<Rightarrow> string \<Rightarrow> bool" where
  "segment_matches p q =
     ((CHR ''*'' \<notin> set q \<longrightarrow> p = q) \<and>
      (CHR ''*'' \<in> set q \<and> length p > first_star q \<longrightarrow>
         take (first_star q) p = take (first_star q) q) \<and>
      (CHR ''*'' \<in> set q \<and> length p \<le> first_star q \<longrightarrow>
         p = take (first_star q) q))"

definition matches_spec :: "string \<Rightarrow> string \<Rightarrow> bool" where
  "matches_spec path pattern =
     (pattern = ''*'' \<or>
      (let ps = strings_Split path (CHR ''/''); qs = strings_Split pattern (CHR ''/'')
       in length ps = length qs \<and> [] \<notin> set ps \<and> [] \<notin> set qs \<and>
          list_all2 segment_matches ps qs))"

section \<open>Requests, external collaborators and outcomes\<close>

text \<open>
  An argument of the variadic \<open>rvals ...interface{}\<close>: a Go string, or a value of any other
  dynamic type. A value that is not a string is represented by the text that
  \<open>fmt.Sprintf("%s", v)\<close> renders for it, the only thing the code ever does with it.
\<close>

datatype rval = Str string | Other string

fun Sprintf_s :: "rval \<Rightarrow> string" where
  "Sprintf_s (Str s) = s"
| "Sprintf_s (Other t) = t"

text \<open>\<open>strings.Join(elems, sep)\<close>.\<close>

fun strings_Join :: "string list \<Rightarrow> string \<Rightarrow> string" where
  "strings_Join [] sep = []"
| "strings_Join [x] sep = x"
| "strings_Join (x # y # ys) sep = x @ sep @ strings_Join (y # ys) sep"

text \<open>
  A call returns, panics, or blocks for ever on a mutex that nobody will release (the
  model is sequential).
\<close>

datatype panic = TypeAssertion | NegativeWaitGroupCounter | DivideByZero | SliceBounds

datatype 'a outcome = Returned 'a | Panic panic | Blocked

text \<open>
  The collaborators outside the repository, as parameters:
  \<open>SessionManager.VerifyToken\<close> and \<open>jwt.MapClaims\<close> (\<open>None\<close> when they return an error),
  \<open>jwt.GetField\<close>, \<open>casbin.Enforcer.Enforce\<close> (\<open>None\<close> when the engine panics) and
  \<open>strings.ToLower\<close>.
\<close>

record ('c, 'm) externals =
  VerifyToken :: "string \<Rightarrow> 'c option"
  MapClaims :: "'c \<Rightarrow> 'm option"
  GetField :: "'m \<Rightarrow> string \<Rightarrow> string"
  casbin_Enforce :: "rval list \<Rightarrow> bool option"
  strings_ToLower :: "string \<Rightarrow> string"

text \<open>
  Modelled from the spec: \<open>handlePanic\<close> is declared in another file of package
  \<open>casbin\<close>. The specification (sections 7 and 9) has the deferred call contain any fault of
  the engine's evaluation and turn it into a denial: the function that deferred it returns
  its zero value \<open>false\<close>. The argument is what the guarded engine call produced.
\<close>

definition handlePanic :: "bool option \<Rightarrow> bool" where
  "handlePanic r = (case r of None \<Rightarrow> False | Some enforcedStatus \<Rightarrow> enforcedStatus)"

text \<open>
  What a single-decision call leaves behind: the decision, the argument slice as the call
  leaves it (\<open>enforce\<close> overwrites \<open>rvals[0]\<close> in the caller's slice), and the argument lists
  handed to the policy engine, in order.
\<close>

record enforce_result =
  decision :: bool
  rvals_after :: "rval list"
  engine_calls :: "rval list list"

definition enforceByEmail :: "('c, 'm) externals \<Rightarrow> rval list \<Rightarrow> enforce_result" where
  "enforceByEmail x rvals =
     (if length rvals = 0 then
        \<lparr>decision = False, rvals_after = rvals, engine_calls = []\<rparr>
      else
        \<lparr>decision = handlePanic (casbin_Enforce x rvals), rvals_after = rvals,
         engine_calls = [rvals]\<rparr>)"

definition EnforceByEmail :: "('c, 'm) externals \<Rightarrow> rval list \<Rightarrow> enforce_result" where
  "EnforceByEmail x rvals = enforceByEmail x rvals"

text \<open>
  \<open>enforce\<close>: the type assertion \<open>rvals[0].(string)\<close> comes before \<open>defer handlePanic()\<close>,
  so its panic reaches the caller.
\<close>

definition enforce :: "('c, 'm) externals \<Rightarrow> rval list \<Rightarrow> enforce_result outcome" where
  "enforce x rvals =
     (if length rvals = 0 then
        Returned \<lparr>decision = False, rvals_after = rvals, engine_calls = []\<rparr>
      else
        (case rvals ! 0 of
           Other v \<Rightarrow> Panic TypeAssertion
         | Str token \<Rightarrow>
            (case VerifyToken x token of
               None \<Rightarrow> Returned \<lparr>decision = False, rvals_after = rvals, engine_calls = []\<rparr>
             | Some claims \<Rightarrow>
                (case MapClaims x claims of
                   None \<Rightarrow>
                     Returned \<lparr>decision = False, rvals_after = rvals, engine_calls = []\<rparr>
                 | Some mapClaims \<Rightarrow>
                    (let email = GetField x mapClaims ''email'';
                         sub = GetField x mapClaims ''sub'';
                         email = (if email = [] \<and> (sub = ''admin'' \<or> sub = ''admin:login'')
                                  then ''admin'' else email);
                         rvals = rvals[0 := Str (strings_ToLower x email)]
                     in Returned \<lparr>decision = handlePanic (casbin_Enforce x rvals),
                                  rvals_after = rvals, engine_calls = [rvals]\<rparr>)))))"

definition Enforce :: "('c, 'm) externals \<Rightarrow> rval list \<Rightarrow> enforce_result outcome" where
  "Enforce x rvals = enforce x rvals"

text \<open>
  \<open>status.Error(codes.PermissionDenied, msg)\<close> is a non-nil error carrying the code and the
  message; \<open>None\<close> is the \<open>nil\<close> error.
\<close>

datatype codes = PermissionDenied

datatype error = status_Error codes string

definition EnforceErr :: "('c, 'm) externals \<Rightarrow> rval list \<Rightarrow> error option outcome" where
  "EnforceErr x rvals =
     (case Enforce x rvals of
        Panic p \<Rightarrow> Panic p
      | Blocked \<Rightarrow> Blocked
      | Returned r \<Rightarrow>
         (if \<not> decision r then
            (let errMsg = ''permission denied'';
                 errMsg = (if length rvals > 0
                           then errMsg @ '': '' @
                                strings_Join (map Sprintf_s (tl (rvals_after r))) '', ''
                           else errMsg)
             in Returned (Some (status_Error PermissionDenied errMsg)))
          else Returned None))"

text \<open>
  Collaborators for the concrete runs below: the token \<open>good\<close> verifies, with an empty email
  claim and the sub claim of the administrator login; the engine grants the items \<open>x\<close> and
  \<open>z\<close>; lower-casing is that of the ASCII letters, where \<open>strings.ToLower\<close> does the same.
\<close>

definition ascii_lower :: "string \<Rightarrow> string" where
  "ascii_lower s =
     map (\<lambda>c. case map_of (zip ''ABCDEFGHIJKLMNOPQRSTUVWXYZ''
                                    ''abcdefghijklmnopqrstuvwxyz'') c of
                 Some l \<Rightarrow> l
               | None \<Rightarrow> c) s"

definition demo_externals :: "(unit, unit) externals" where
  "demo_externals =
     \<lparr>VerifyToken = (\<lambda>t. if t = ''good'' then Some () else None),
      MapClaims = (\<lambda>c. Some ()),
      GetField = (\<lambda>m f. if f = ''sub'' then ''admin:login'' else []),
      casbin_Enforce =
        (\<lambda>rs. Some (length rs = 4 \<and> (rs ! 3 = Str ''x'' \<or> rs ! 3 = Str ''z''))),
      strings_ToLower = ascii_lower\<rparr>"

section \<open>The lock table, the result cache and the batch evaluator\<close>

text \<open>
  \<open>EnforcerImpl\<close>, the fields that carry state: the lock table \<open>map[string]*sync.Mutex\<close>
  (a key is mapped to the state of its mutex, \<open>True\<close> when it is held) and the cache
  (\<open>None\<close> is the nil pointer of a disabled cache), from the identity to its
  \<open>map[string]map[string]bool\<close>. Expiry of cache entries needs a clock and is left out: no
  entry expires between the calls of a run.
\<close>

record EnforcerImpl =
  lock :: "string \<rightharpoonup> bool"
  Cache :: "(string \<rightharpoonup> (string \<rightharpoonup> (string \<rightharpoonup> bool))) option"

definition getCacheKey :: "string \<Rightarrow> string \<Rightarrow> string" where
  "getCacheKey resource action = resource @ ''$$'' @ action"

definition getLockKey :: "string \<Rightarrow> string" where
  "getLockKey emailId = emailId"

definition getEnforcerCacheLock :: "EnforcerImpl \<Rightarrow> string \<Rightarrow> EnforcerImpl" where
  "getEnforcerCacheLock e emailId =
     (case lock e (getLockKey emailId) of
        None \<Rightarrow> e\<lparr>lock := (lock e)(getLockKey emailId \<mapsto> False)\<rparr>
      | Some enforcerCacheMutex \<Rightarrow> e)"

text \<open>
  \<open>Lock()\<close> on the handle that \<open>getEnforcerCacheLock\<close> returned, the one at the key: a held
  mutex blocks (\<open>None\<close>), a free one becomes held.
\<close>

definition Mutex_Lock :: "EnforcerImpl \<Rightarrow> string \<Rightarrow> EnforcerImpl option" where
  "Mutex_Lock e key =
     (case lock e key of
        Some False \<Rightarrow> Some (e\<lparr>lock := (lock e)(key \<mapsto> True)\<rparr>)
      | Some True \<Rightarrow> None
      | None \<Rightarrow> None)"

text \<open>\<open>clearCacheLock\<close>: \<open>Unlock()\<close>, then \<open>delete(e.lock, getLockKey(emailId))\<close>.\<close>

definition clearCacheLock :: "EnforcerImpl \<Rightarrow> string \<Rightarrow> EnforcerImpl" where
  "clearCacheLock e emailId =
     (let e = e\<lparr>lock := (lock e)(getLockKey emailId \<mapsto> False)\<rparr>
      in e\<lparr>lock := (lock e)(getLockKey emailId := None)\<rparr>)"

text \<open>
  \<open>getCacheData\<close>; \<open>None\<close> is the nil map. The \<open>Set\<close> on a hit only renews the expiry.
\<close>

definition getCacheData ::
  "EnforcerImpl \<Rightarrow> string \<Rightarrow> string \<Rightarrow> string \<Rightarrow> (string \<rightharpoonup> bool) option" where
  "getCacheData e emailId resource action =
     (case Cache e of
        None \<Rightarrow> None
      | Some c \<Rightarrow>
         (case c emailId of
            Some emailResult \<Rightarrow> emailResult (getCacheKey resource action)
          | None \<Rightarrow> None))"

definition storeCacheData ::
  "EnforcerImpl \<Rightarrow> string \<Rightarrow> string \<Rightarrow> string \<Rightarrow> (string \<rightharpoonup> bool) \<Rightarrow> EnforcerImpl" where
  "storeCacheData e emailId resource action result =
     (case Cache e of
        None \<Rightarrow> e
      | Some c \<Rightarrow>
         (let emailResult = (case c emailId of None \<Rightarrow> Map.empty | Some r \<Rightarrow> r)
          in e\<lparr>Cache :=
               Some (c(emailId \<mapsto> emailResult(getCacheKey resource action \<mapsto> result)))\<rparr>))"

definition InvalidateCache :: "string \<Rightarrow> EnforcerImpl \<Rightarrow> bool outcome \<times> EnforcerImpl" where
  "InvalidateCache emailId e =
     (let e = getEnforcerCacheLock e emailId
      in case Mutex_Lock e (getLockKey emailId) of
           None \<Rightarrow> (Blocked, e)
         | Some e \<Rightarrow>
            (case Cache e of
               Some c \<Rightarrow>
                 (Returned True, clearCacheLock (e\<lparr>Cache := Some (c(emailId := None))\<rparr>) emailId)
             | None \<Rightarrow> (Returned False, clearCacheLock e emailId)))"

text \<open>
  Go's integer division truncates towards zero and panics on a zero divisor. The operands
  are Go \<open>int\<close>s (64 bits); they are modelled as unbounded integers, which is exact as long
  as \<open>batchSize * len(vals)\<close> stays below \<open>2^63\<close>.
\<close>

definition quo :: "int \<Rightarrow> int \<Rightarrow> int option" where
  "quo a b = (if b = 0 then None else Some (sgn a * sgn b * (\<bar>a\<bar> div \<bar>b\<bar>)))"

text \<open>
  The slice expression \<open>vals[lo:hi]\<close>; \<open>None\<close> is the panic for bounds out of range.
\<close>

definition slice :: "'a list \<Rightarrow> int \<Rightarrow> int \<Rightarrow> 'a list option" where
  "slice xs lo hi =
     (if 0 \<le> lo \<and> lo \<le> hi \<and> hi \<le> int (length xs)
      then Some (take (nat (hi - lo)) (drop (nat lo) xs)) else None)"

text \<open>
  The loop \<open>for i := 0; i < batchSize; i++\<close> from the value \<open>i\<close> on: the shards handed
  to the goroutines, in the order of their start.
\<close>

function dispatch :: "string list \<Rightarrow> int \<Rightarrow> int \<Rightarrow> string list list outcome" where
  "dispatch vals batchSize i =
     (if i < batchSize then
        (case quo (i * int (length vals)) batchSize of
           None \<Rightarrow> Panic DivideByZero
         | Some startIndex \<Rightarrow>
            (case quo (int (length vals)) batchSize of
               None \<Rightarrow> Panic DivideByZero
             | Some shardSize \<Rightarrow>
                (let endIndex = startIndex + shardSize;
                     endIndex = (if endIndex > int (length vals) then int (length vals)
                                 else endIndex)
                 in case slice vals startIndex endIndex of
                      None \<Rightarrow> Panic SliceBounds
                    | Some shard \<Rightarrow>
                       (case dispatch vals batchSize (i + 1) of
                          Returned shards \<Rightarrow> Returned (shard # shards)
                        | Panic p \<Rightarrow> Panic p
                        | Blocked \<Rightarrow> Blocked))))
      else Returned [])"
  by pat_completeness auto
termination
  by (relation "measure (\<lambda>(vals, batchSize, i). nat (batchSize - i))") auto

declare dispatch.simps [simp del]

text \<open>
  \<open>EnforceByEmailInBatchSync\<close>: the decisions of one shard, merged into the shared result.
  The identity handed to the engine is the lower-cased \<open>emailId\<close>.
\<close>

fun batch_decisions ::
  "('c, 'm) externals \<Rightarrow> string \<Rightarrow> string \<Rightarrow> string \<Rightarrow> string list \<Rightarrow>
   (string \<rightharpoonup> bool) \<Rightarrow> (string \<rightharpoonup> bool)" where
  "batch_decisions x emailId resource action [] batchResult = batchResult"
| "batch_decisions x emailId resource action (item # vals) batchResult =
     batch_decisions x emailId resource action vals
       (batchResult(item \<mapsto>
          decision (EnforceByEmail x
            [Str (strings_ToLower x emailId), Str resource, Str action, Str item])))"

definition EnforceByEmailInBatchSync ::
  "('c, 'm) externals \<Rightarrow> (string \<rightharpoonup> bool) \<Rightarrow> string \<Rightarrow> string \<Rightarrow> string \<Rightarrow> string list \<Rightarrow>
   (string \<rightharpoonup> bool)" where
  "EnforceByEmailInBatchSync x result emailId resource action vals =
     result ++ batch_decisions x emailId resource action vals Map.empty"

text \<open>
  The goroutines merge under \<open>batchMutex\<close>, one after the other, in an order the scheduler
  chooses; the model takes the order of the shards. Lemma \<open>run_workers_lookup\<close> shows that
  the merged result does not depend on it.
\<close>

fun run_workers ::
  "('c, 'm) externals \<Rightarrow> (string \<rightharpoonup> bool) \<Rightarrow> string \<Rightarrow> string \<Rightarrow> string \<Rightarrow>
   string list list \<Rightarrow> (string \<rightharpoonup> bool)" where
  "run_workers x result emailId resource action [] = result"
| "run_workers x result emailId resource action (shard # shards) =
     run_workers x (EnforceByEmailInBatchSync x result emailId resource action shard)
       emailId resource action shards"

text \<open>
  What a batch call returns, with the two things the claims speak of besides the returned
  map: the items left after the cache was consulted, and the shards of the dispatched
  workers.
\<close>

record batch_result =
  decisions :: "string \<rightharpoonup> bool"
  remaining :: "string list"
  workers :: "string list list"

text \<open>
  The batch size: \<open>strconv.Atoi\<close> of the environment variable (\<open>None\<close> when it returns an
  error), and the constant \<open>EnforcerBatchDefaultSize\<close>, declared in another file.
\<close>

definition configuredBatchSize :: "int \<Rightarrow> int option \<Rightarrow> int" where
  "configuredBatchSize EnforcerBatchDefaultSize atoi =
     (case atoi of None \<Rightarrow> EnforcerBatchDefaultSize | Some batchSize \<Rightarrow> batchSize)"

text \<open>
  The body of \<open>EnforceByEmailInBatch\<close> under the identity's lock. \<open>wg.Add\<close> panics on a
  negative count. The timings only reach the log.
\<close>

definition batch_body ::
  "('c, 'm) externals \<Rightarrow> int \<Rightarrow> string \<Rightarrow> string \<Rightarrow> string \<Rightarrow> string list \<Rightarrow> EnforcerImpl \<Rightarrow>
   batch_result outcome \<times> EnforcerImpl" where
  "batch_body x batchSize emailId resource action vals e =
     (let (result, vals) =
            (case getCacheData e emailId resource action of
               Some result \<Rightarrow> (result, filter (\<lambda>item. result item = None) vals)
             | None \<Rightarrow> (Map.empty, vals));
          totalSize = int (length vals);
          batchSize = (if batchSize > totalSize then totalSize else batchSize)
      in if batchSize < 0 then (Panic NegativeWaitGroupCounter, e)
         else
           (case dispatch vals batchSize 0 of
              Panic p \<Rightarrow> (Panic p, e)
            | Blocked \<Rightarrow> (Blocked, e)
            | Returned shards \<Rightarrow>
               (let result = run_workers x result emailId resource action shards
                in (Returned \<lparr>decisions = result, remaining = vals, workers = shards\<rparr>,
                    storeCacheData e emailId resource action result))))"

definition EnforceByEmailInBatch ::
  "('c, 'm) externals \<Rightarrow> int \<Rightarrow> int option \<Rightarrow> string \<Rightarrow> string \<Rightarrow> string \<Rightarrow> string list \<Rightarrow>
   EnforcerImpl \<Rightarrow> batch_result outcome \<times> EnforcerImpl" where
  "EnforceByEmailInBatch x EnforcerBatchDefaultSize atoi emailId resource action vals e =
     (let batchSize = configuredBatchSize EnforcerBatchDefaultSize atoi;
          e = getEnforcerCacheLock e emailId
      in case Mutex_Lock e (getLockKey emailId) of
           None \<Rightarrow> (Blocked, e)
         | Some e \<Rightarrow>
            (let (out, e) = batch_body x batchSize emailId resource action vals e
             in (out, clearCacheLock e emailId)))"

text \<open>\<open>NewEnforcerImpl\<close>: an empty lock table, the cache enabled or not.\<close>

definition NewEnforcerImpl :: "bool \<Rightarrow> EnforcerImpl" where
  "NewEnforcerImpl enableEnforcerCacheVal =
     \<lparr>lock = Map.empty,
      Cache = (if enableEnforcerCacheVal then Some Map.empty else None)\<rparr>"

text \<open>
  Names for what the batch call reads from the cache: the entry of an identity, the cached
  decisions of a request (empty when there are none), and the items of a request that the
  cache does not decide, which are the items left for the workers.
\<close>

definition cache_entry :: "EnforcerImpl \<Rightarrow> string \<Rightarrow> (string \<rightharpoonup> (string \<rightharpoonup> bool)) option" where
  "cache_entry e emailId = (case Cache e of None \<Rightarrow> None | Some c \<Rightarrow> c emailId)"

definition uncached ::
  "EnforcerImpl \<Rightarrow> string \<Rightarrow> string \<Rightarrow> string \<Rightarrow> string list \<Rightarrow> string list" where
  "uncached e emailId resource action vals =
     (case getCacheData e emailId resource action of
        Some result \<Rightarrow> filter (\<lambda>item. result item = None) vals
      | None \<Rightarrow> vals)"

definition cached_decisions ::
  "EnforcerImpl \<Rightarrow> string \<Rightarrow> string \<Rightarrow> string \<Rightarrow> (string \<rightharpoonup> bool)" where
  "cached_decisions e emailId resource action =
     (case getCacheData e emailId resource action of
        Some result \<Rightarrow> result
      | None \<Rightarrow> Map.empty)"

text \<open>
  Reading a call's outcome without a case distinction: what it returned, if it did, and the
  decision of the returned map for an item.
\<close>

definition returned_of :: "'a outcome \<Rightarrow> 'a option" where
  "returned_of out = (case out of Returned r \<Rightarrow> Some r | Panic p \<Rightarrow> None | Blocked \<Rightarrow> None)"

definition decided :: "batch_result outcome \<Rightarrow> string \<Rightarrow> bool option" where
  "decided out item =
     (case out of Returned r \<Rightarrow> decisions r item | Panic p \<Rightarrow> None | Blocked \<Rightarrow> None)"

text \<open>A state with cached decisions of two identities, for the concrete runs.\<close>

definition demo_cached :: EnforcerImpl where
  "demo_cached =
     \<lparr>lock = Map.empty,
      Cache = Some [''alice'' \<mapsto> [''app$$view'' \<mapsto> [''a'' \<mapsto> True]],
                    ''bob'' \<mapsto> [''app$$view'' \<mapsto> [''a'' \<mapsto> False]]]\<rparr>"

section \<open>Properties of the matcher\<close>

lemma strings_Split_not_Nil: "strings_Split s sep \<noteq> []"
  by (induction s) (auto split: list.splits)

text \<open>
  The segments are those of \<open>strings.Split\<close>: joined with the separator they give the
  string back, and none of them contains the separator.
\<close>

lemma strings_Split_Join: "strings_Join (strings_Split s sep) [sep] = s"
proof (induction s)
  case Nil
  show ?case by simp
next
  case (Cons c cs)
  obtain w ws where sp: "strings_Split cs sep = w # ws"
    using strings_Split_not_Nil [of cs sep] by (cases "strings_Split cs sep") auto
  show ?case
  proof (cases "c = sep")
    case True
    with Cons sp show ?thesis by simp
  next
    case False
    with Cons sp show ?thesis by (cases ws) simp_all
  qed
qed

lemma strings_Split_no_sep: "seg \<in> set (strings_Split s sep) \<Longrightarrow> sep \<notin> set seg"
proof (induction s arbitrary: seg)
  case Nil
  then show ?case by simp
next
  case (Cons c cs)
  obtain w ws where sp: "strings_Split cs sep = w # ws"
    using strings_Split_not_Nil [of cs sep] by (cases "strings_Split cs sep") auto
  from Cons.IH [of w] sp have w: "sep \<notin> set w" by simp
  from Cons.IH sp have ws: "\<And>v. v \<in> set ws \<Longrightarrow> sep \<notin> set v" by simp
  show ?case
  proof (cases "c = sep")
    case True
    with Cons.prems sp w ws show ?thesis by auto
  next
    case False
    with Cons.prems sp w ws show ?thesis by auto
  qed
qed

lemma strings_Index_ge: "- 1 \<le> strings_Index s c"
  by (induction s) (auto simp: Let_def)

lemma strings_Index_none: "strings_Index s c = - 1 \<longleftrightarrow> c \<notin> set s"
proof (induction s)
  case Nil
  show ?case by simp
next
  case (Cons x xs)
  have "- 1 \<le> strings_Index xs c" by (rule strings_Index_ge)
  with Cons show ?case by (auto simp: Let_def)
qed

lemma strings_Index_first:
  "c \<in> set s \<Longrightarrow> strings_Index s c = int (length (takeWhile (\<lambda>x. x \<noteq> c) s))"
proof (induction s)
  case Nil
  then show ?case by simp
next
  case (Cons x xs)
  show ?case
  proof (cases "x = c")
    case True
    then show ?thesis by simp
  next
    case False
    with Cons.prems have "c \<in> set xs" by simp
    with Cons.IH False show ?thesis
      by (simp add: Let_def strings_Index_none)
  qed
qed

lemma strings_Index_less: "strings_Index s c < int (length s)"
proof (cases "c \<in> set s")
  case True
  have "length (takeWhile (\<lambda>x. x \<noteq> c) s) < length s"
    using True by (induction s) auto
  with True show ?thesis by (simp add: strings_Index_first)
next
  case False
  then have "strings_Index s c = - 1" by (simp add: strings_Index_none)
  then show ?thesis by simp
qed

lemma match_parts_segment:
  "p \<noteq> [] \<Longrightarrow> q \<noteq> [] \<Longrightarrow>
   match_parts (p # ps) (q # qs) = (segment_matches p q \<and> match_parts ps qs)"
proof (cases "CHR ''*'' \<in> set q")
  case True
  assume ne: "p \<noteq> []" "q \<noteq> []"
  from True have j: "strings_Index q (CHR ''*'') = int (first_star q)"
    by (simp add: strings_Index_first first_star_def)
  from ne True show ?thesis
    by (auto simp: j segment_matches_def Let_def)
next
  case False
  assume ne: "p \<noteq> []" "q \<noteq> []"
  from False have "strings_Index q (CHR ''*'') = - 1"
    by (simp add: strings_Index_none)
  with ne False show ?thesis
    by (auto simp: segment_matches_def Let_def)
qed

lemma match_parts_iff:
  "length ps = length qs \<Longrightarrow>
   match_parts ps qs = ([] \<notin> set ps \<and> [] \<notin> set qs \<and> list_all2 segment_matches ps qs)"
proof (induction ps qs rule: list_induct2)
  case Nil
  show ?case by simp
next
  case (Cons p ps q qs)
  show ?case
  proof (cases "p = [] \<or> q = []")
    case True
    then show ?thesis by auto
  next
    case False
    then have "match_parts (p # ps) (q # qs) = (segment_matches p q \<and> match_parts ps qs)"
      using match_parts_segment [of p q ps qs] by blast
    with Cons.IH False show ?thesis by auto
  qed
qed

text \<open>
  C9. \<open>MatchKeyByPart(path, "*")\<close> is true for every path, the empty string and paths with
  empty segments included: the test of the universal pattern comes before the splitting and
  the check of empty segments.
\<close>

theorem MatchKeyByPart_star:
  "MatchKeyByPart path ''*'' \<and> MatchKeyByPart '''' ''*'' \<and> MatchKeyByPart ''a//c'' ''*''"
  by (simp add: MatchKeyByPart_def)

text \<open>
  C3. \<open>MatchKeyByPart(path, pattern)\<close> is true iff the pattern is exactly \<open>*\<close>, or both
  strings split on \<open>/\<close> into equally many segments, no segment on either side is empty, and
  every pair of segments at the same position satisfies \<open>segment_matches\<close> (equal without a
  wildcard; equal up to the first wildcard at index \<open>j\<close> when the path segment is longer than
  \<open>j\<close>; the path segment equal to \<open>q[:j]\<close> otherwise). The four examples of the
  specification come out as it says.
\<close>

theorem MatchKeyByPart_iff_spec:
  "(MatchKeyByPart path pattern \<longleftrightarrow> matches_spec path pattern) \<and>
   MatchKeyByPart ''a/b/c'' ''a/*/c'' \<and>
   \<not> MatchKeyByPart ''a/b/c'' ''a/*/d'' \<and>
   \<not> MatchKeyByPart ''a/b'' ''a/b/c'' \<and>
   \<not> MatchKeyByPart ''a//c'' ''a/*/c''"
proof -
  have "MatchKeyByPart path pattern \<longleftrightarrow> matches_spec path pattern"
  proof (cases "pattern = ''*''")
    case True
    then show ?thesis by (simp add: MatchKeyByPart_def matches_spec_def)
  next
    case False
    show ?thesis
    proof (cases "length (strings_Split path (CHR ''/'')) =
                  length (strings_Split pattern (CHR ''/''))")
      case True
      from match_parts_iff [OF True] False True show ?thesis
        by (simp add: MatchKeyByPart_def matches_spec_def Let_def strings_Split_not_Nil)
    next
      case neq: False
      with False show ?thesis
        by (simp add: MatchKeyByPart_def matches_spec_def Let_def)
    qed
  qed
  moreover have "MatchKeyByPart ''a/b/c'' ''a/*/c''"
    by (simp add: MatchKeyByPart_def)
  moreover have "\<not> MatchKeyByPart ''a/b/c'' ''a/*/d''"
    by (simp add: MatchKeyByPart_def)
  moreover have "\<not> MatchKeyByPart ''a/b'' ''a/b/c''"
    by (simp add: MatchKeyByPart_def)
  moreover have "\<not> MatchKeyByPart ''a//c'' ''a/*/c''"
    by (simp add: MatchKeyByPart_def)
  ultimately show ?thesis by blast
qed

theorem MatchKeyByPart_iff_spec_witness:
  "matches_spec ''a/bcd/d'' ''a/bc*/d'' \<and> \<not> matches_spec ''a/b/d'' ''a/bc*/d''"
proof -
  have "MatchKeyByPart ''a/bcd/d'' ''a/bc*/d''"
    by (simp add: MatchKeyByPart_def)
  moreover have "\<not> MatchKeyByPart ''a/b/d'' ''a/bc*/d''"
    by (simp add: MatchKeyByPart_def)
  ultimately show ?thesis
    using MatchKeyByPart_iff_spec [of "''a/bcd/d''" "''a/bc*/d''"]
      MatchKeyByPart_iff_spec [of "''a/b/d''" "''a/bc*/d''"]
    by blast
qed

theorem MatchKeyByPart_star_witness:
  "MatchKeyByPart ''/x//'' ''*''"
  using MatchKeyByPart_star [of "''/x//''"] by blast

section \<open>Properties of the single-decision evaluator\<close>

lemma enforce_Nil:
  "enforce x [] = Returned \<lparr>decision = False, rvals_after = [], engine_calls = []\<rparr>"
  by (simp add: enforce_def)

lemma enforce_tl_rvals:
  "enforce x rvals = Returned r \<Longrightarrow> tl (rvals_after r) = tl rvals"
  by (cases rvals)
     (auto simp: enforce_def Let_def split: rval.splits option.splits if_splits)





text \<open>
  C8. \<open>EnforceErr\<close> returns \<open>nil\<close> iff \<open>Enforce\<close> returns true. When \<open>Enforce\<close> returns false
  on a non-empty argument list, the error is a permission-denied status whose message is
  \<open>permission denied: \<close> followed by the string forms of the arguments after the first,
  joined by a comma and a space; on the empty list the message is \<open>permission denied\<close>.
\<close>

theorem EnforceErr_message:
  "(EnforceErr x rvals = Returned None \<longleftrightarrow>
      (\<exists>r. Enforce x rvals = Returned r \<and> decision r)) \<and>
   (\<forall>r. Enforce x rvals = Returned r \<and> \<not> decision r \<and> rvals \<noteq> [] \<longrightarrow>
      EnforceErr x rvals =
        Returned (Some (status_Error PermissionDenied
          (''permission denied: '' @ strings_Join (map Sprintf_s (tl rvals)) '', '')))) \<and>
   EnforceErr x [] = Returned (Some (status_Error PermissionDenied ''permission denied''))"
proof -
  have a: "EnforceErr x rvals = Returned None \<longleftrightarrow>
      (\<exists>r. Enforce x rvals = Returned r \<and> decision r)"
    by (cases "Enforce x rvals") (simp_all add: EnforceErr_def Let_def)
  have b: "EnforceErr x rvals =
        Returned (Some (status_Error PermissionDenied
          (''permission denied: '' @ strings_Join (map Sprintf_s (tl rvals)) '', '')))"
    if "Enforce x rvals = Returned r" "\<not> decision r" "rvals \<noteq> []" for r
  proof -
    from that(1) have "tl (rvals_after r) = tl rvals"
      by (simp add: Enforce_def enforce_tl_rvals)
    with that show ?thesis by (simp add: EnforceErr_def Let_def)
  qed
  have c: "EnforceErr x [] = Returned (Some (status_Error PermissionDenied ''permission denied''))"
    by (simp add: EnforceErr_def Enforce_def enforce_Nil)
  from a b c show ?thesis by blast
qed

theorem EnforceErr_message_witness:
  "EnforceErr demo_externals [Str ''good'', Str ''app'', Str ''get'', Str ''y''] =
     Returned (Some (status_Error PermissionDenied ''permission denied: app, get, y'')) \<and>
   EnforceErr demo_externals [Str ''good'', Str ''app'', Str ''get'', Str ''x''] =
     Returned None"
proof -
  have y: "Enforce demo_externals [Str ''good'', Str ''app'', Str ''get'', Str ''y''] =
     Returned \<lparr>decision = False,
               rvals_after = [Str ''admin'', Str ''app'', Str ''get'', Str ''y''],
               engine_calls = [[Str ''admin'', Str ''app'', Str ''get'', Str ''y'']]\<rparr>"
    by (simp add: Enforce_def enforce_def Let_def demo_externals_def ascii_lower_def handlePanic_def)
  have x: "Enforce demo_externals [Str ''good'', Str ''app'', Str ''get'', Str ''x''] =
     Returned \<lparr>decision = True,
               rvals_after = [Str ''admin'', Str ''app'', Str ''get'', Str ''x''],
               engine_calls = [[Str ''admin'', Str ''app'', Str ''get'', Str ''x'']]\<rparr>"
    by (simp add: Enforce_def enforce_def Let_def demo_externals_def ascii_lower_def handlePanic_def)
  from y x
    EnforceErr_message
      [of demo_externals "[Str ''good'', Str ''app'', Str ''get'', Str ''y'']"]
    EnforceErr_message
      [of demo_externals "[Str ''good'', Str ''app'', Str ''get'', Str ''x'']"]
  show ?thesis by simp
qed

section \<open>Properties of the sharding loop and of the workers\<close>

lemma quo_nonneg: "0 \<le> a \<Longrightarrow> 0 < b \<Longrightarrow> quo a b = Some (a div b)"
  by (simp add: quo_def sgn_if)

lemma shard_end_le:
  assumes "0 \<le> i" "i < b" "0 \<le> (t::int)"
  shows "(i * t) div b + t div b \<le> t"
proof -
  have b: "0 < b" using assms by linarith
  let ?x = "(i * t) div b + t div b"
  have d: "b * (a div b) \<le> a" for a
    using pos_mod_sign [OF b, of a] mult_div_mod_eq [of b a] by linarith
  from d [of "i * t"] d [of t] have "b * ?x \<le> i * t + t" by (simp only: distrib_left)
  also have "i * t + t = (i + 1) * t" by (simp only: distrib_right mult_1)
  also have "(i + 1) * t \<le> b * t" using assms by (intro mult_right_mono) simp_all
  finally have "b * ?x \<le> b * t" .
  with b show ?thesis by (simp only: mult_le_cancel_left_pos)
qed

lemma dispatch_step:
  assumes "0 \<le> i" "i < b"
  shows "dispatch vals b i =
     (case dispatch vals b (i + 1) of
        Returned shards \<Rightarrow>
          Returned (take (nat (int (length vals) div b))
                      (drop (nat ((i * int (length vals)) div b)) vals) # shards)
      | Panic p \<Rightarrow> Panic p
      | Blocked \<Rightarrow> Blocked)"
proof -
  let ?t = "int (length vals)"
  from assms have b: "0 < b" by linarith
  have s: "quo (i * ?t) b = Some ((i * ?t) div b)"
    using assms b by (simp add: quo_nonneg)
  have q: "quo ?t b = Some (?t div b)"
    using b by (simp add: quo_nonneg)
  have le: "(i * ?t) div b + ?t div b \<le> ?t"
    using shard_end_le [of i b ?t] assms by simp
  have s0: "0 \<le> (i * ?t) div b"
    using assms b by (simp add: pos_imp_zdiv_nonneg_iff)
  have q0: "0 \<le> ?t div b"
    using b by (simp add: pos_imp_zdiv_nonneg_iff)
  have sl: "slice vals ((i * ?t) div b) ((i * ?t) div b + ?t div b)
      = Some (take (nat (?t div b)) (drop (nat ((i * ?t) div b)) vals))"
    using le s0 q0 by (simp add: slice_def)
  have e: "(if ?t < (i * ?t) div b + ?t div b then ?t else (i * ?t) div b + ?t div b)
      = (i * ?t) div b + ?t div b"
    using le by simp
  show ?thesis
    apply (subst dispatch.simps)
    apply (simp only: assms if_True s q option.case Let_def e sl)
    done
qed

lemma dispatch_done: "\<not> i < b \<Longrightarrow> dispatch vals b i = Returned []"
  by (subst dispatch.simps) simp

lemma dispatch_returns:
  "0 \<le> i \<Longrightarrow> \<exists>shards. dispatch vals b i = Returned shards"
proof (induction "nat (b - i)" arbitrary: i)
  case 0
  then show ?case by (simp add: dispatch_done)
next
  case (Suc n)
  then have lt: "i < b" by linarith
  from Suc have "\<exists>shards. dispatch vals b (i + 1) = Returned shards"
    by (intro Suc.hyps(1)) auto
  then obtain shards where sh: "dispatch vals b (i + 1) = Returned shards" ..
  have "dispatch vals b i =
     Returned (take (nat (int (length vals) div b))
                      (drop (nat ((i * int (length vals)) div b)) vals) # shards)"
    by (simp only: dispatch_step [OF Suc.prems lt] sh outcome.case)
  then show ?case by blast
qed


lemma batch_decisions_lookup:
  "batch_decisions x emailId resource action vals batchResult item =
     (if item \<in> set vals
      then Some (decision (EnforceByEmail x
             [Str (strings_ToLower x emailId), Str resource, Str action, Str item]))
      else batchResult item)"
  by (induction vals arbitrary: batchResult) auto

lemma run_workers_lookup:
  "run_workers x result emailId resource action shards item =
     (if item \<in> set (concat shards)
      then Some (decision (EnforceByEmail x
             [Str (strings_ToLower x emailId), Str resource, Str action, Str item]))
      else result item)"
  by (induction shards arbitrary: result)
     (auto simp: EnforceByEmailInBatchSync_def map_add_def batch_decisions_lookup)

lemma dispatch_exact:
  assumes n: "0 < n" and t: "int (length vals) = n * q"
  shows "0 \<le> i \<Longrightarrow> i \<le> n \<Longrightarrow>
    \<exists>shards. dispatch vals n i = Returned shards \<and> concat shards = drop (nat (i * q)) vals"
proof (induction "nat (n - i)" arbitrary: i)
  case 0
  then have "i = n" by linarith
  then show ?case using t by (simp add: dispatch_done)
next
  case (Suc k)
  then have lt: "i < n" by linarith
  have q0: "0 \<le> q"
  proof (rule ccontr)
    assume "\<not> 0 \<le> q"
    then have "n * q < 0" using n by (simp add: mult_pos_neg)
    with t show False by linarith
  qed
  from Suc have "\<exists>shards. dispatch vals n (i + 1) = Returned shards \<and>
      concat shards = drop (nat ((i + 1) * q)) vals"
    by (intro Suc.hyps(1)) auto
  then obtain shards where sh: "dispatch vals n (i + 1) = Returned shards"
    and c: "concat shards = drop (nat ((i + 1) * q)) vals" by blast
  have d1: "int (length vals) div n = q" using n t by simp
  have "i * int (length vals) = n * (i * q)" using t by (simp add: mult.left_commute)
  then have "(i * int (length vals)) div n = (n * (i * q)) div n" by (rule arg_cong)
  also have "\<dots> = i * q" using n by (intro nonzero_mult_div_cancel_left) simp
  finally have d2: "(i * int (length vals)) div n = i * q" .
  have iq: "0 \<le> i * q" using Suc.prems q0 by simp
  have "nat ((i + 1) * q) = nat q + nat (i * q)"
    using iq q0 by (simp add: distrib_right nat_add_distrib)
  then have c': "concat shards = drop (nat q) (drop (nat (i * q)) vals)"
    using c by simp
  have app: "take (nat q) (drop (nat (i * q)) vals) @ concat shards = drop (nat (i * q)) vals"
    unfolding c' by (rule append_take_drop_id)
  have "dispatch vals n i = Returned (take (nat q) (drop (nat (i * q)) vals) # shards)"
    by (simp only: dispatch_step [OF Suc.prems(1) lt] sh outcome.case d1 d2)
  then show ?case using app by (simp del: drop_drop)
qed

lemma dispatch_covers:
  assumes "0 \<le> n" "n dvd int (length vals)" "n \<le> int (length vals)"
  shows "\<exists>shards. dispatch vals n 0 = Returned shards \<and> concat shards = vals"
proof (cases "n = 0")
  case True
  with assms have "vals = []" by simp
  with True show ?thesis by (simp add: dispatch_done)
next
  case False
  with assms have n: "0 < n" by simp
  from assms(2) obtain q where "int (length vals) = n * q" by auto
  from dispatch_exact [OF n this, of 0] n show ?thesis by simp
qed

text \<open>
  Every shard has \<open>total/n\<close> items and there are \<open>n\<close> of them, so the workers get
  \<open>n * (total/n)\<close> of the \<open>total\<close> items: all of them exactly when \<open>n\<close> divides
  \<open>total\<close>.
\<close>

lemma dispatch_sizes:
  "0 \<le> i \<Longrightarrow> dispatch vals n i = Returned shards \<Longrightarrow>
   length shards = nat (n - i) \<and>
   (\<forall>shard \<in> set shards. int (length shard) = int (length vals) div n)"
proof (induction "nat (n - i)" arbitrary: i shards)
  case 0
  then have "\<not> i < n" by linarith
  with 0 show ?case by (simp add: dispatch_done)
next
  case (Suc k)
  then have lt: "i < n" by linarith
  let ?t = "int (length vals)"
  let ?s = "(i * ?t) div n"
  let ?q = "?t div n"
  from dispatch_returns [of "i + 1" vals n] Suc.prems(1)
  obtain rest where rest: "dispatch vals n (i + 1) = Returned rest" by auto
  have sh: "shards = take (nat ?q) (drop (nat ?s) vals) # rest"
    using Suc.prems(2) by (simp only: dispatch_step [OF Suc.prems(1) lt] rest outcome.case) simp
  have k: "k = nat (n - (i + 1))" using Suc.hyps(2) by linarith
  have ih: "length rest = nat (n - (i + 1)) \<and>
      (\<forall>shard \<in> set rest. int (length shard) = ?q)"
    using Suc.hyps(1) [OF k _ rest] Suc.prems(1) by simp
  have n: "0 < n" using lt Suc.prems(1) by linarith
  have le: "?s + ?q \<le> ?t" using shard_end_le [of i n ?t] Suc.prems(1) lt by simp
  have s0: "0 \<le> ?s" using Suc.prems(1) n by (simp add: pos_imp_zdiv_nonneg_iff)
  have q0: "0 \<le> ?q" using n by (simp add: pos_imp_zdiv_nonneg_iff)
  have "nat ?q \<le> length vals - nat ?s" using le s0 q0 by linarith
  then have "length (take (nat ?q) (drop (nat ?s) vals)) = nat ?q" by simp
  then have "int (length (take (nat ?q) (drop (nat ?s) vals))) = ?q" using q0 by simp
  moreover have "Suc (nat (n - (i + 1))) = nat (n - i)" using lt by linarith
  ultimately show ?case using ih unfolding sh by simp
qed

lemma dispatch_covered_count:
  assumes "0 < n" "dispatch vals n 0 = Returned shards"
  shows "int (length (concat shards)) = n * (int (length vals) div n)"
proof -
  from dispatch_sizes [OF _ assms(2)] have l: "length shards = nat n"
    and s: "\<forall>shard \<in> set shards. int (length shard) = int (length vals) div n" by simp_all
  have q0: "0 \<le> int (length vals) div n" using assms(1) by (simp add: pos_imp_zdiv_nonneg_iff)
  from s have "\<forall>shard \<in> set shards. length shard = nat (int (length vals) div n)"
    by (metis nat_int)
  then have "map length shards = replicate (length shards) (nat (int (length vals) div n))"
    by (simp add: map_replicate_const [symmetric] cong: map_cong)
  then have "length (concat shards) = length shards * nat (int (length vals) div n)"
    by (simp add: length_concat sum_list_replicate)
  then show ?thesis using l q0 assms(1) by simp
qed

lemma dispatch_example:
  "dispatch [''a'', ''b'', ''c'', ''d'', ''e''] 3 0 = Returned [[''a''], [''b''], [''d'']]"
  by (simp add: dispatch.simps quo_def slice_def)

section \<open>Properties of the lock table and of the cache\<close>

lemma acquire_free:
  "lock e (getLockKey emailId) \<noteq> Some True \<Longrightarrow>
   Mutex_Lock (getEnforcerCacheLock e emailId) (getLockKey emailId) =
     Some (e\<lparr>lock := (lock e)(getLockKey emailId \<mapsto> True)\<rparr>)"
  by (auto simp: getEnforcerCacheLock_def Mutex_Lock_def split: option.splits bool.splits)

lemma acquire_held:
  "lock e (getLockKey emailId) = Some True \<Longrightarrow>
   Mutex_Lock (getEnforcerCacheLock e emailId) (getLockKey emailId) = None"
  by (simp add: getEnforcerCacheLock_def Mutex_Lock_def)

lemma getCacheData_lock [simp]:
  "getCacheData (e\<lparr>lock := l\<rparr>) emailId resource action = getCacheData e emailId resource action"
  by (simp add: getCacheData_def)

lemma uncached_lock [simp]:
  "uncached (e\<lparr>lock := l\<rparr>) emailId resource action vals = uncached e emailId resource action vals"
  by (simp add: uncached_def)

lemma lock_storeCacheData [simp]:
  "lock (storeCacheData e emailId resource action result) = lock e"
  by (simp add: storeCacheData_def Let_def split: option.splits)

lemma lock_clearCacheLock [simp]:
  "lock (clearCacheLock e emailId) = (lock e)(getLockKey emailId := None)"
  by (simp add: clearCacheLock_def Let_def)

lemma Cache_clearCacheLock [simp]: "Cache (clearCacheLock e emailId) = Cache e"
  by (simp add: clearCacheLock_def Let_def)

lemma batch_body_eq:
  "batch_body x batchSize emailId resource action vals e =
     (if min batchSize (int (length (uncached e emailId resource action vals))) < 0
      then (Panic NegativeWaitGroupCounter, e)
      else
        (case dispatch (uncached e emailId resource action vals)
                (min batchSize (int (length (uncached e emailId resource action vals)))) 0 of
           Panic p \<Rightarrow> (Panic p, e)
         | Blocked \<Rightarrow> (Blocked, e)
         | Returned shards \<Rightarrow>
            (Returned
               \<lparr>decisions = run_workers x (cached_decisions e emailId resource action)
                               emailId resource action shards,
                remaining = uncached e emailId resource action vals,
                workers = shards\<rparr>,
             storeCacheData e emailId resource action
               (run_workers x (cached_decisions e emailId resource action)
                  emailId resource action shards))))"
proof (cases "getCacheData e emailId resource action")
  case None
  then have u: "uncached e emailId resource action vals = vals"
    and c: "cached_decisions e emailId resource action = Map.empty"
    by (simp_all add: uncached_def cached_decisions_def)
  show ?thesis unfolding u c
    by (simp add: batch_body_def None Let_def min_def split: outcome.splits)
next
  case (Some r)
  then have u: "uncached e emailId resource action vals = filter (\<lambda>item. r item = None) vals"
    and c: "cached_decisions e emailId resource action = r"
    by (simp_all add: uncached_def cached_decisions_def)
  show ?thesis unfolding u c
    by (simp add: batch_body_def Some Let_def min_def split: outcome.splits)
qed

lemma batch_body_cases:
  obtains (negative)
      "min batchSize (int (length (uncached e emailId resource action vals))) < 0"
      "batch_body x batchSize emailId resource action vals e = (Panic NegativeWaitGroupCounter, e)"
  | (returned) shards where
      "0 \<le> min batchSize (int (length (uncached e emailId resource action vals)))"
      "dispatch (uncached e emailId resource action vals)
         (min batchSize (int (length (uncached e emailId resource action vals)))) 0 =
       Returned shards"
      "batch_body x batchSize emailId resource action vals e =
         (Returned
            \<lparr>decisions = run_workers x (cached_decisions e emailId resource action)
                            emailId resource action shards,
             remaining = uncached e emailId resource action vals,
             workers = shards\<rparr>,
          storeCacheData e emailId resource action
            (run_workers x (cached_decisions e emailId resource action)
               emailId resource action shards))"
proof (cases "min batchSize (int (length (uncached e emailId resource action vals))) < 0")
  case True
  show ?thesis
  proof (rule negative)
    show "min batchSize (int (length (uncached e emailId resource action vals))) < 0"
      by (rule True)
    show "batch_body x batchSize emailId resource action vals e =
        (Panic NegativeWaitGroupCounter, e)"
      using True by (simp only: batch_body_eq if_True)
  qed
next
  case False
  obtain shards where sh: "dispatch (uncached e emailId resource action vals)
         (min batchSize (int (length (uncached e emailId resource action vals)))) 0 =
       Returned shards"
    using dispatch_returns [of 0] by blast
  show ?thesis
  proof (rule returned [of shards])
    show "0 \<le> min batchSize (int (length (uncached e emailId resource action vals)))"
      using False by simp
    show "dispatch (uncached e emailId resource action vals)
         (min batchSize (int (length (uncached e emailId resource action vals)))) 0 =
       Returned shards" by (rule sh)
    show "batch_body x batchSize emailId resource action vals e =
         (Returned
            \<lparr>decisions = run_workers x (cached_decisions e emailId resource action)
                            emailId resource action shards,
             remaining = uncached e emailId resource action vals,
             workers = shards\<rparr>,
          storeCacheData e emailId resource action
            (run_workers x (cached_decisions e emailId resource action)
               emailId resource action shards))"
      using False by (simp only: batch_body_eq sh if_False outcome.case)
  qed
qed

lemma batch_body_lock [simp]:
  "lock (snd (batch_body x batchSize emailId resource action vals e)) = lock e"
  by (cases rule: batch_body_cases [of batchSize e emailId resource action vals x]) simp_all

lemma cache_entry_storeCacheData:
  "k \<noteq> emailId \<Longrightarrow>
   cache_entry (storeCacheData e emailId resource action result) k = cache_entry e k"
  by (simp add: storeCacheData_def cache_entry_def Let_def split: option.splits)

lemma batch_body_cache_frame:
  "k \<noteq> emailId \<Longrightarrow>
   cache_entry (snd (batch_body x batchSize emailId resource action vals e)) k = cache_entry e k"
  by (cases rule: batch_body_cases [of batchSize e emailId resource action vals x])
     (simp_all add: cache_entry_storeCacheData)

lemma batch_body_not_Blocked:
  "fst (batch_body x batchSize emailId resource action vals e) \<noteq> Blocked"
  by (cases rule: batch_body_cases [of batchSize e emailId resource action vals x]) simp_all

lemma batch_unfold_free:
  assumes "lock e (getLockKey emailId) \<noteq> Some True"
  shows "EnforceByEmailInBatch x d atoi emailId resource action vals e =
     (fst (batch_body x (configuredBatchSize d atoi) emailId resource action vals
             (e\<lparr>lock := (lock e)(getLockKey emailId \<mapsto> True)\<rparr>)),
      clearCacheLock
        (snd (batch_body x (configuredBatchSize d atoi) emailId resource action vals
             (e\<lparr>lock := (lock e)(getLockKey emailId \<mapsto> True)\<rparr>))) emailId)"
  by (simp add: EnforceByEmailInBatch_def Let_def acquire_free [OF assms] split: prod.splits)

lemma batch_unfold_held:
  assumes "lock e (getLockKey emailId) = Some True"
  shows "EnforceByEmailInBatch x d atoi emailId resource action vals e = (Blocked, e)"
proof -
  from assms have g: "getEnforcerCacheLock e emailId = e"
    by (simp add: getEnforcerCacheLock_def)
  from assms show ?thesis
    by (simp add: EnforceByEmailInBatch_def Let_def g Mutex_Lock_def)
qed

lemma invalidate_unfold_free:
  assumes "lock e (getLockKey emailId) \<noteq> Some True"
  shows "InvalidateCache emailId e =
     (case Cache e of
        Some c \<Rightarrow> (Returned True,
                   e\<lparr>lock := (lock e)(getLockKey emailId := None),
                     Cache := Some (c(emailId := None))\<rparr>)
      | None \<Rightarrow> (Returned False, e\<lparr>lock := (lock e)(getLockKey emailId := None)\<rparr>))"
  by (simp add: InvalidateCache_def Let_def acquire_free [OF assms] clearCacheLock_def
           split: option.splits)

lemma invalidate_unfold_held:
  assumes "lock e (getLockKey emailId) = Some True"
  shows "InvalidateCache emailId e = (Blocked, e)"
proof -
  from assms have g: "getEnforcerCacheLock e emailId = e"
    by (simp add: getEnforcerCacheLock_def)
  from assms show ?thesis
    by (simp add: InvalidateCache_def Let_def g Mutex_Lock_def)
qed

section \<open>The lock handle of an identity\<close>

lemma lock_after_batch:
  "fst (EnforceByEmailInBatch x d atoi emailId resource action vals e) \<noteq> Blocked \<Longrightarrow>
   lock (snd (EnforceByEmailInBatch x d atoi emailId resource action vals e)) =
     (lock e)(getLockKey emailId := None)"
proof (cases "lock e (getLockKey emailId) = Some True")
  case True
  assume "fst (EnforceByEmailInBatch x d atoi emailId resource action vals e) \<noteq> Blocked"
  with True show ?thesis by (simp add: batch_unfold_held)
next
  case False
  then show ?thesis by (simp add: batch_unfold_free)
qed

lemma lock_after_invalidate:
  "fst (InvalidateCache emailId e) \<noteq> Blocked \<Longrightarrow>
   lock (snd (InvalidateCache emailId e)) = (lock e)(getLockKey emailId := None)"
proof (cases "lock e (getLockKey emailId) = Some True")
  case True
  assume "fst (InvalidateCache emailId e) \<noteq> Blocked"
  with True show ?thesis by (simp add: invalidate_unfold_held)
next
  case False
  then show ?thesis by (simp add: invalidate_unfold_free split: option.splits)
qed

lemma batch_completes:
  "lock e (getLockKey emailId) \<noteq> Some True \<Longrightarrow>
   fst (EnforceByEmailInBatch x d atoi emailId resource action vals e) \<noteq> Blocked"
  by (simp add: batch_unfold_free batch_body_not_Blocked)

lemma invalidate_completes:
  "lock e (getLockKey emailId) \<noteq> Some True \<Longrightarrow> fst (InvalidateCache emailId e) \<noteq> Blocked"
  by (simp add: invalidate_unfold_free split: option.splits)

lemma handle_created: "lock (getEnforcerCacheLock e emailId) (getLockKey emailId) \<noteq> None"
  by (cases "lock e (getLockKey emailId)") (simp_all add: getEnforcerCacheLock_def)

text \<open>
  C7. After a complete call of \<open>EnforceByEmailInBatch\<close> or of \<open>InvalidateCache\<close> (one that
  returns or panics: the deferred \<open>clearCacheLock\<close> runs in both cases) the lock table is
  the one before the call without the key of the identity, so it holds no handle for it. A
  call completes whenever the handle of the identity is not held at its start, as it is in
  every sequential run from an empty table; and the handle is there once
  \<open>getEnforcerCacheLock\<close> has returned it (created on first need).
\<close>

theorem lock_handle_removed:
  "(fst (EnforceByEmailInBatch x d atoi emailId resource action vals e) \<noteq> Blocked \<longrightarrow>
      lock (snd (EnforceByEmailInBatch x d atoi emailId resource action vals e)) =
        (lock e)(getLockKey emailId := None)) \<and>
   (fst (InvalidateCache emailId e) \<noteq> Blocked \<longrightarrow>
      lock (snd (InvalidateCache emailId e)) = (lock e)(getLockKey emailId := None)) \<and>
   (lock e (getLockKey emailId) \<noteq> Some True \<longrightarrow>
      fst (EnforceByEmailInBatch x d atoi emailId resource action vals e) \<noteq> Blocked \<and>
      fst (InvalidateCache emailId e) \<noteq> Blocked) \<and>
   lock (getEnforcerCacheLock e emailId) (getLockKey emailId) \<noteq> None"
  using lock_after_batch [of x d atoi emailId resource action vals e]
    lock_after_invalidate [of emailId e]
    batch_completes [of e emailId x d atoi resource action vals]
    invalidate_completes [of e emailId]
    handle_created [of e emailId]
  by blast

theorem lock_handle_removed_witness:
  "lock (snd (EnforceByEmailInBatch demo_externals 1 None ''alice'' ''app'' ''view''
            [''x'', ''y'', ''z''] (NewEnforcerImpl True))) = Map.empty \<and>
   lock (snd (InvalidateCache ''alice'' (NewEnforcerImpl True))) = Map.empty"
proof -
  have free: "lock (NewEnforcerImpl True) (getLockKey ''alice'') \<noteq> Some True"
    by (simp add: NewEnforcerImpl_def)
  have emp: "(lock (NewEnforcerImpl True))(getLockKey ''alice'' := None) = Map.empty"
    by (simp add: NewEnforcerImpl_def)
  from free emp
    lock_handle_removed [of demo_externals 1 None "''alice''" "''app''" "''view''"
      "[''x'', ''y'', ''z'']" "NewEnforcerImpl True"]
  show ?thesis by simp
qed

section \<open>The batch size of the configuration\<close>

lemma dispatch_zero: "dispatch vals 0 0 = Returned []"
  by (simp add: dispatch_done)

lemma cached_decisions_uncached:
  "item \<in> set (uncached e emailId resource action vals) \<Longrightarrow>
   cached_decisions e emailId resource action item = None"
  by (cases "getCacheData e emailId resource action")
     (simp_all add: uncached_def cached_decisions_def)

lemma batch_body_zero:
  "batch_body x 0 emailId resource action vals e =
     (Returned \<lparr>decisions = cached_decisions e emailId resource action,
                remaining = uncached e emailId resource action vals,
                workers = []\<rparr>,
      storeCacheData e emailId resource action (cached_decisions e emailId resource action))"
proof -
  have m: "min 0 (int (length (uncached e emailId resource action vals))) = 0"
    by simp
  show ?thesis
    by (simp only: batch_body_eq m dispatch_zero outcome.case run_workers.simps) simp
qed

text \<open>
  C10. The default batch size takes the place of the configured one only when
  \<open>strconv.Atoi\<close> fails; a value that parses is used as it is, zero included. With the batch
  size zero a batch call (on a handle that is free) returns with no worker dispatched, and
  its mapping holds no decision for any of the items that the cache does not decide.
\<close>

theorem zero_batch_size_decides_nothing:
  "configuredBatchSize d None = d \<and>
   configuredBatchSize d (Some n) = n \<and>
   (lock e (getLockKey emailId) \<noteq> Some True \<longrightarrow>
     (\<exists>r. fst (EnforceByEmailInBatch x d (Some 0) emailId resource action vals e) = Returned r \<and>
          workers r = [] \<and>
          remaining r = uncached e emailId resource action vals \<and>
          (\<forall>item \<in> set (uncached e emailId resource action vals). decisions r item = None)))"
proof -
  have "\<exists>r. fst (EnforceByEmailInBatch x d (Some 0) emailId resource action vals e) = Returned r \<and>
          workers r = [] \<and>
          remaining r = uncached e emailId resource action vals \<and>
          (\<forall>item \<in> set (uncached e emailId resource action vals). decisions r item = None)"
    if free: "lock e (getLockKey emailId) \<noteq> Some True"
    by (simp add: batch_unfold_free [OF free] configuredBatchSize_def batch_body_zero
          cached_decisions_uncached)
  then show ?thesis by (simp add: configuredBatchSize_def)
qed

theorem zero_batch_size_decides_nothing_witness:
  "map_option workers (returned_of (fst (EnforceByEmailInBatch demo_externals 1 (Some 0)
      ''alice'' ''app'' ''view'' [''x'', ''y'', ''z''] (NewEnforcerImpl True)))) = Some [] \<and>
   decided (fst (EnforceByEmailInBatch demo_externals 1 (Some 0)
      ''alice'' ''app'' ''view'' [''x'', ''y'', ''z''] (NewEnforcerImpl True))) ''x'' = None"
proof -
  have free: "lock (NewEnforcerImpl True) (getLockKey ''alice'') \<noteq> Some True"
    by (simp add: NewEnforcerImpl_def)
  have u: "uncached (NewEnforcerImpl True) ''alice'' ''app'' ''view'' [''x'', ''y'', ''z'']
             = [''x'', ''y'', ''z'']"
    by (simp add: uncached_def getCacheData_def NewEnforcerImpl_def)
  from free
    zero_batch_size_decides_nothing [of 1 _ "NewEnforcerImpl True" "''alice''" demo_externals
      "''app''" "''view''" "[''x'', ''y'', ''z'']"]
  obtain r where r: "fst (EnforceByEmailInBatch demo_externals 1 (Some 0)
      ''alice'' ''app'' ''view'' [''x'', ''y'', ''z''] (NewEnforcerImpl True)) = Returned r"
    "workers r = []"
    "\<forall>item \<in> set (uncached (NewEnforcerImpl True) ''alice'' ''app'' ''view''
        [''x'', ''y'', ''z'']). decisions r item = None"
    by blast
  from r(3) have "decisions r ''x'' = None" by (simp add: u)
  with r(1,2) show ?thesis by (simp add: returned_of_def decided_def)
qed

section \<open>The shards of a batch\<close>

lemma decided_fst_batch:
  assumes "lock e (getLockKey emailId) \<noteq> Some True"
  shows "fst (EnforceByEmailInBatch x d atoi emailId resource action vals e) =
     fst (batch_body x (configuredBatchSize d atoi) emailId resource action vals
            (e\<lparr>lock := (lock e)(getLockKey emailId \<mapsto> True)\<rparr>))"
  by (simp add: batch_unfold_free [OF assms])

lemma batch_body_returned:
  assumes "dispatch (uncached e emailId resource action vals)
             (min batchSize (int (length (uncached e emailId resource action vals)))) 0 =
           Returned shards"
    and "0 \<le> min batchSize (int (length (uncached e emailId resource action vals)))"
  shows "batch_body x batchSize emailId resource action vals e =
     (Returned
        \<lparr>decisions = run_workers x (cached_decisions e emailId resource action)
                        emailId resource action shards,
         remaining = uncached e emailId resource action vals,
         workers = shards\<rparr>,
      storeCacheData e emailId resource action
        (run_workers x (cached_decisions e emailId resource action)
           emailId resource action shards))"
  using assms(2) by (simp only: batch_body_eq assms(1) outcome.case) simp

text \<open>
  C1 fails on the code. The shard \<open>i\<close> ends at \<open>i*total/n + total/n\<close>, not at the start
  of the shard \<open>i+1\<close>: with five items and the batch size three the shards are the items
  at the indices 0, 1 and 3, and the items at the indices 2 and 4 get no decision.
\<close>

theorem five_items_three_shards:
  "dispatch [''a'', ''b'', ''c'', ''d'', ''e''] 3 0 = Returned [[''a''], [''b''], [''d'']] \<and>
   map_option workers (returned_of (fst (EnforceByEmailInBatch demo_externals 1 (Some 3)
      ''alice'' ''app'' ''view'' [''a'', ''b'', ''c'', ''d'', ''e''] (NewEnforcerImpl True))))
     = Some [[''a''], [''b''], [''d'']] \<and>
   map_option remaining (returned_of (fst (EnforceByEmailInBatch demo_externals 1 (Some 3)
      ''alice'' ''app'' ''view'' [''a'', ''b'', ''c'', ''d'', ''e''] (NewEnforcerImpl True))))
     = Some [''a'', ''b'', ''c'', ''d'', ''e''] \<and>
   decided (fst (EnforceByEmailInBatch demo_externals 1 (Some 3)
      ''alice'' ''app'' ''view'' [''a'', ''b'', ''c'', ''d'', ''e''] (NewEnforcerImpl True)))
      ''c'' = None \<and>
   decided (fst (EnforceByEmailInBatch demo_externals 1 (Some 3)
      ''alice'' ''app'' ''view'' [''a'', ''b'', ''c'', ''d'', ''e''] (NewEnforcerImpl True)))
      ''e'' = None \<and>
   decided (fst (EnforceByEmailInBatch demo_externals 1 (Some 3)
      ''alice'' ''app'' ''view'' [''a'', ''b'', ''c'', ''d'', ''e''] (NewEnforcerImpl True)))
      ''d'' = Some False"
proof -
  let ?vals = "[''a'', ''b'', ''c'', ''d'', ''e'']"
  let ?e = "(NewEnforcerImpl True)\<lparr>lock :=
     (lock (NewEnforcerImpl True))(getLockKey ''alice'' \<mapsto> True)\<rparr>"
  have free: "lock (NewEnforcerImpl True) (getLockKey ''alice'') \<noteq> Some True"
    by (simp add: NewEnforcerImpl_def)
  have u: "uncached ?e ''alice'' ''app'' ''view'' ?vals = ?vals"
    by (simp add: uncached_def getCacheData_def NewEnforcerImpl_def)
  have c: "cached_decisions ?e ''alice'' ''app'' ''view'' = Map.empty"
    by (simp add: cached_decisions_def getCacheData_def NewEnforcerImpl_def)
  have u0: "uncached (NewEnforcerImpl True) ''alice'' ''app'' ''view'' ?vals = ?vals"
    by (simp add: uncached_def getCacheData_def NewEnforcerImpl_def)
  have d: "dispatch ?vals 3 0 = Returned [[''a''], [''b''], [''d'']]"
    by (rule dispatch_example)
  have d': "dispatch (uncached ?e ''alice'' ''app'' ''view'' ?vals)
      (min 3 (int (length (uncached ?e ''alice'' ''app'' ''view'' ?vals)))) 0 =
      Returned [[''a''], [''b''], [''d'']]"
    unfolding u using d by simp
  have b: "fst (EnforceByEmailInBatch demo_externals 1 (Some 3) ''alice'' ''app'' ''view''
      ?vals (NewEnforcerImpl True)) =
    Returned \<lparr>decisions = run_workers demo_externals Map.empty ''alice'' ''app'' ''view''
                 [[''a''], [''b''], [''d'']],
              remaining = ?vals, workers = [[''a''], [''b''], [''d'']]\<rparr>"
    unfolding decided_fst_batch [OF free] configuredBatchSize_def option.case
    by (subst batch_body_returned [OF d']) (simp_all add: u0 c)
  show ?thesis
    unfolding b
    by (simp add: d returned_of_def decided_def run_workers_lookup EnforceByEmail_def
          enforceByEmail_def demo_externals_def handlePanic_def del: run_workers.simps)
qed

section \<open>Invalidation\<close>

lemma InvalidateCache_result:
  "lock e (getLockKey emailId) \<noteq> Some True \<Longrightarrow>
   fst (InvalidateCache emailId e) = Returned (Cache e \<noteq> None)"
  by (simp add: invalidate_unfold_free split: option.splits)

lemma InvalidateCache_entry:
  "lock e (getLockKey emailId) \<noteq> Some True \<Longrightarrow>
   cache_entry (snd (InvalidateCache emailId e)) emailId = None"
  by (simp add: invalidate_unfold_free cache_entry_def split: option.splits)

lemma InvalidateCache_frame:
  "k \<noteq> emailId \<Longrightarrow> cache_entry (snd (InvalidateCache emailId e)) k = cache_entry e k"
proof (cases "lock e (getLockKey emailId) = Some True")
  case True
  then show ?thesis by (simp add: invalidate_unfold_held)
next
  case False
  assume "k \<noteq> emailId"
  with False show ?thesis
    by (simp add: invalidate_unfold_free cache_entry_def split: option.splits)
qed

lemma getCacheData_cache_entry:
  "getCacheData e emailId resource action =
     (case cache_entry e emailId of
        None \<Rightarrow> None
      | Some emailResult \<Rightarrow> emailResult (getCacheKey resource action))"
  by (simp add: getCacheData_def cache_entry_def split: option.splits)

lemma uncached_after_invalidate:
  "lock e (getLockKey emailId) \<noteq> Some True \<Longrightarrow>
   uncached (snd (InvalidateCache emailId e)) emailId resource action vals = vals"
  by (simp add: uncached_def getCacheData_cache_entry InvalidateCache_entry)

text \<open>
  C6 fails on the code, by the defect of C1. The invalidation itself does what the claim
  says (lemmas \<open>InvalidateCache_result\<close>, \<open>InvalidateCache_entry\<close>,
  \<open>InvalidateCache_frame\<close> and \<open>uncached_after_invalidate\<close>): here it returns true, the
  entry of \<open>alice\<close> is gone and that of \<open>bob\<close> is untouched, and the next batch call for
  \<open>alice\<close> has all five requested items left. But with the batch size three its workers
  get the items at the indices 0, 1 and 3 only, not the full requested set.
\<close>

theorem batch_after_invalidate_drops_items:
  "fst (InvalidateCache ''alice'' demo_cached) = Returned True \<and>
   cache_entry (snd (InvalidateCache ''alice'' demo_cached)) ''alice'' = None \<and>
   cache_entry (snd (InvalidateCache ''alice'' demo_cached)) ''bob'' =
     cache_entry demo_cached ''bob'' \<and>
   map_option remaining (returned_of (fst (EnforceByEmailInBatch demo_externals 1 (Some 3)
      ''alice'' ''app'' ''view'' [''a'', ''b'', ''c'', ''d'', ''e'']
      (snd (InvalidateCache ''alice'' demo_cached)))))
     = Some [''a'', ''b'', ''c'', ''d'', ''e''] \<and>
   map_option workers (returned_of (fst (EnforceByEmailInBatch demo_externals 1 (Some 3)
      ''alice'' ''app'' ''view'' [''a'', ''b'', ''c'', ''d'', ''e'']
      (snd (InvalidateCache ''alice'' demo_cached)))))
     = Some [[''a''], [''b''], [''d'']]"
proof -
  let ?vals = "[''a'', ''b'', ''c'', ''d'', ''e'']"
  let ?e1 = "snd (InvalidateCache ''alice'' demo_cached)"
  let ?e = "?e1\<lparr>lock := (lock ?e1)(getLockKey ''alice'' \<mapsto> True)\<rparr>"
  have free0: "lock demo_cached (getLockKey ''alice'') \<noteq> Some True"
    by (simp add: demo_cached_def)
  have r: "fst (InvalidateCache ''alice'' demo_cached) = Returned True"
    by (simp add: InvalidateCache_result [OF free0]) (simp add: demo_cached_def)
  have free: "lock ?e1 (getLockKey ''alice'') \<noteq> Some True"
    using lock_after_invalidate [of "''alice''" demo_cached] r by simp
  have u0: "uncached ?e1 ''alice'' ''app'' ''view'' ?vals = ?vals"
    by (rule uncached_after_invalidate [OF free0])
  have d': "dispatch (uncached ?e ''alice'' ''app'' ''view'' ?vals)
      (min 3 (int (length (uncached ?e ''alice'' ''app'' ''view'' ?vals)))) 0 =
      Returned [[''a''], [''b''], [''d'']]"
    using dispatch_example by (simp add: u0)
  have b: "fst (EnforceByEmailInBatch demo_externals 1 (Some 3) ''alice'' ''app'' ''view''
      ?vals ?e1) =
    Returned \<lparr>decisions = run_workers demo_externals
                 (cached_decisions ?e ''alice'' ''app'' ''view'') ''alice'' ''app'' ''view''
                 [[''a''], [''b''], [''d'']],
              remaining = ?vals, workers = [[''a''], [''b''], [''d'']]\<rparr>"
    unfolding decided_fst_batch [OF free] configuredBatchSize_def option.case
    by (subst batch_body_returned [OF d']) (simp_all add: u0)
  have "''bob'' \<noteq> ''alice''" by simp
  then have f: "cache_entry ?e1 ''bob'' = cache_entry demo_cached ''bob''"
    by (rule InvalidateCache_frame)
  show ?thesis
    unfolding b
    by (simp add: r f InvalidateCache_entry [OF free0] returned_of_def)
qed

section \<open>Frames of the batch call and what it writes\<close>

lemma cache_entry_lock [simp]: "cache_entry (e\<lparr>lock := l\<rparr>) k = cache_entry e k"
  by (simp add: cache_entry_def)

lemma cache_entry_clearCacheLock [simp]:
  "cache_entry (clearCacheLock e emailId) k = cache_entry e k"
  by (simp add: cache_entry_def)

lemma getCacheData_clearCacheLock [simp]:
  "getCacheData (clearCacheLock e k) emailId resource action =
   getCacheData e emailId resource action"
  by (simp add: getCacheData_def)

lemma getCacheData_storeCacheData:
  "getCacheData (storeCacheData e emailId resource action result) emailId resource action =
     (if Cache e = None then None else Some result)"
  by (simp add: getCacheData_def storeCacheData_def Let_def split: option.splits)

lemma Cache_storeCacheData_None [simp]:
  "Cache (storeCacheData e emailId resource action result) = None \<longleftrightarrow> Cache e = None"
  by (simp add: storeCacheData_def Let_def split: option.splits)

lemma batch_cache_frame:
  "k \<noteq> emailId \<Longrightarrow>
   cache_entry (snd (EnforceByEmailInBatch x d atoi emailId resource action vals e)) k =
     cache_entry e k"
proof (cases "lock e (getLockKey emailId) = Some True")
  case True
  then show ?thesis by (simp add: batch_unfold_held)
next
  case False
  assume "k \<noteq> emailId"
  then show ?thesis
    by (simp add: batch_unfold_free [OF False] batch_body_cache_frame)
qed

lemma batch_lock_frame:
  "k \<noteq> getLockKey emailId \<Longrightarrow>
   lock (snd (EnforceByEmailInBatch x d atoi emailId resource action vals e)) k = lock e k"
proof (cases "lock e (getLockKey emailId) = Some True")
  case True
  then show ?thesis by (simp add: batch_unfold_held)
next
  case False
  assume "k \<noteq> getLockKey emailId"
  then show ?thesis by (simp add: batch_unfold_free [OF False])
qed

lemma invalidate_lock_frame:
  "k \<noteq> getLockKey emailId \<Longrightarrow> lock (snd (InvalidateCache emailId e)) k = lock e k"
proof (cases "lock e (getLockKey emailId) = Some True")
  case True
  then show ?thesis by (simp add: invalidate_unfold_held)
next
  case False
  assume "k \<noteq> getLockKey emailId"
  then show ?thesis by (simp add: invalidate_unfold_free [OF False] split: option.splits)
qed

lemma getEnforcerCacheLock_frame:
  "k \<noteq> getLockKey emailId \<Longrightarrow> lock (getEnforcerCacheLock e emailId) k = lock e k"
  by (simp add: getEnforcerCacheLock_def split: option.splits)

lemma batch_returned:
  assumes free: "lock e (getLockKey emailId) \<noteq> Some True"
    and ret: "fst (EnforceByEmailInBatch x d atoi emailId resource action vals e) = Returned r"
  shows "getCacheData (snd (EnforceByEmailInBatch x d atoi emailId resource action vals e))
           emailId resource action = (if Cache e = None then None else Some (decisions r))"
    and "remaining r = uncached e emailId resource action vals"
    and "decisions r = run_workers x (cached_decisions e emailId resource action)
                         emailId resource action (workers r)"
    and "dispatch (uncached e emailId resource action vals)
           (min (configuredBatchSize d atoi)
              (int (length (uncached e emailId resource action vals)))) 0 =
         Returned (workers r)"
proof -
  let ?e = "e\<lparr>lock := (lock e)(getLockKey emailId \<mapsto> True)\<rparr>"
  let ?b = "configuredBatchSize d atoi"
  have cd: "cached_decisions ?e emailId resource action =
            cached_decisions e emailId resource action"
    by (simp add: cached_decisions_def)
  have all: "
    getCacheData (snd (EnforceByEmailInBatch x d atoi emailId resource action vals e))
           emailId resource action = (if Cache e = None then None else Some (decisions r)) \<and>
    remaining r = uncached e emailId resource action vals \<and>
    decisions r = run_workers x (cached_decisions e emailId resource action)
                         emailId resource action (workers r) \<and>
    dispatch (uncached e emailId resource action vals)
           (min (configuredBatchSize d atoi)
              (int (length (uncached e emailId resource action vals)))) 0 =
         Returned (workers r)"
  proof (cases rule: batch_body_cases [of ?b ?e emailId resource action vals x])
    case negative
    with ret show ?thesis by (simp add: batch_unfold_free [OF free])
  next
    case (returned shards)
    from ret returned(3) have r: "r =
        \<lparr>decisions = run_workers x (cached_decisions ?e emailId resource action)
                        emailId resource action shards,
         remaining = uncached ?e emailId resource action vals,
         workers = shards\<rparr>"
      by (simp add: batch_unfold_free [OF free])
    from returned(2) have d: "dispatch (uncached e emailId resource action vals)
           (min ?b (int (length (uncached e emailId resource action vals)))) 0 =
         Returned shards" by simp
    show ?thesis
      unfolding batch_unfold_free [OF free] returned(3)
      by (simp add: r cd d getCacheData_storeCacheData)
  qed
  from all show "getCacheData (snd (EnforceByEmailInBatch x d atoi emailId resource action vals e))
           emailId resource action = (if Cache e = None then None else Some (decisions r))"
    by blast
  from all show "remaining r = uncached e emailId resource action vals" by blast
  from all show "decisions r = run_workers x (cached_decisions e emailId resource action)
                         emailId resource action (workers r)" by blast
  from all show "dispatch (uncached e emailId resource action vals)
           (min (configuredBatchSize d atoi)
              (int (length (uncached e emailId resource action vals)))) 0 =
         Returned (workers r)" by blast
qed

section \<open>The keys of the lock table and of the cache\<close>

lemma batch_returns:
  assumes free: "lock e (getLockKey emailId) \<noteq> Some True"
    and nn: "0 \<le> configuredBatchSize d atoi"
  shows "\<exists>r. fst (EnforceByEmailInBatch x d atoi emailId resource action vals e) = Returned r"
proof (cases rule: batch_body_cases [of "configuredBatchSize d atoi"
    "e\<lparr>lock := (lock e)(getLockKey emailId \<mapsto> True)\<rparr>" emailId resource action vals x])
  case negative
  with nn show ?thesis by simp
next
  case (returned shards)
  then show ?thesis by (simp add: batch_unfold_free [OF free])
qed

lemma batch_panic:
  assumes "fst (EnforceByEmailInBatch x d atoi emailId resource action vals e) = Panic p"
  shows "p = NegativeWaitGroupCounter \<and> configuredBatchSize d atoi < 0"
proof (cases "lock e (getLockKey emailId) = Some True")
  case True
  with assms show ?thesis by (simp add: batch_unfold_held)
next
  case False
  show ?thesis
  proof (cases rule: batch_body_cases [of "configuredBatchSize d atoi"
      "e\<lparr>lock := (lock e)(getLockKey emailId \<mapsto> True)\<rparr>" emailId resource action vals x])
    case negative
    with assms show ?thesis by (simp add: batch_unfold_free [OF False])
  next
    case (returned shards)
    with assms show ?thesis by (simp add: batch_unfold_free [OF False])
  qed
qed

text \<open>
  C2, as the code has it. The key of the lock table and the key of the cache are the
  \<open>emailId\<close> argument as it is passed (\<open>getLockKey\<close> is the identity function): the handle
  is created at that key, \<open>InvalidateCache\<close> deletes the entry at that key, a batch call
  that returns leaves its decisions at that key, and neither call touches the handle or the
  cache entry of any other string. Lower-casing is applied only to the identity that the
  workers hand to the policy engine.
\<close>

theorem identity_keys_verbatim:
  "getLockKey emailId = emailId \<and>
   lock (getEnforcerCacheLock e emailId) emailId \<noteq> None \<and>
   (\<forall>k. k \<noteq> emailId \<longrightarrow>
      lock (getEnforcerCacheLock e emailId) k = lock e k \<and>
      lock (snd (EnforceByEmailInBatch x d atoi emailId resource action vals e)) k = lock e k \<and>
      lock (snd (InvalidateCache emailId e)) k = lock e k \<and>
      cache_entry (snd (EnforceByEmailInBatch x d atoi emailId resource action vals e)) k =
        cache_entry e k \<and>
      cache_entry (snd (InvalidateCache emailId e)) k = cache_entry e k) \<and>
   (lock e emailId \<noteq> Some True \<longrightarrow>
      cache_entry (snd (InvalidateCache emailId e)) emailId = None \<and>
      (\<forall>r. fst (EnforceByEmailInBatch x d atoi emailId resource action vals e) = Returned r \<longrightarrow>
         getCacheData (snd (EnforceByEmailInBatch x d atoi emailId resource action vals e))
           emailId resource action = (if Cache e = None then None else Some (decisions r)) \<and>
         (\<forall>item \<in> set (concat (workers r)).
            decisions r item =
              Some (decision (EnforceByEmail x
                [Str (strings_ToLower x emailId), Str resource, Str action, Str item])))))"
proof -
  have k: "getLockKey emailId = emailId" by (simp add: getLockKey_def)
  have a: "lock (getEnforcerCacheLock e emailId) emailId \<noteq> None"
    using handle_created [of e emailId] by (simp add: k)
  have b: "lock (getEnforcerCacheLock e emailId) k = lock e k \<and>
      lock (snd (EnforceByEmailInBatch x d atoi emailId resource action vals e)) k = lock e k \<and>
      lock (snd (InvalidateCache emailId e)) k = lock e k \<and>
      cache_entry (snd (EnforceByEmailInBatch x d atoi emailId resource action vals e)) k =
        cache_entry e k \<and>
      cache_entry (snd (InvalidateCache emailId e)) k = cache_entry e k"
    if "k \<noteq> emailId" for k
    using that
    by (simp add: getEnforcerCacheLock_frame batch_lock_frame invalidate_lock_frame
          batch_cache_frame InvalidateCache_frame k)
  have c: "cache_entry (snd (InvalidateCache emailId e)) emailId = None"
    if "lock e emailId \<noteq> Some True"
    using that by (simp add: InvalidateCache_entry k)
  have d: "getCacheData (snd (EnforceByEmailInBatch x d atoi emailId resource action vals e))
           emailId resource action = (if Cache e = None then None else Some (decisions r)) \<and>
         (\<forall>item \<in> set (concat (workers r)).
            decisions r item =
              Some (decision (EnforceByEmail x
                [Str (strings_ToLower x emailId), Str resource, Str action, Str item])))"
    if free: "lock e emailId \<noteq> Some True"
      and ret: "fst (EnforceByEmailInBatch x d atoi emailId resource action vals e) = Returned r"
    for r
  proof -
    from free have free': "lock e (getLockKey emailId) \<noteq> Some True" by (simp add: k)
    note br = batch_returned [OF free' ret]
    show ?thesis
      by (simp add: br(1)) (auto simp: br(3) run_workers_lookup)
  qed
  from k a b c d show ?thesis by blast
qed

theorem identity_keys_verbatim_witness:
  "cache_entry (snd (EnforceByEmailInBatch demo_externals 1 None ''Alice'' ''app'' ''view''
      [''x''] demo_cached)) ''alice'' = cache_entry demo_cached ''alice'' \<and>
   cache_entry (snd (InvalidateCache ''Alice'' demo_cached)) ''alice'' =
     cache_entry demo_cached ''alice'' \<and>
   cache_entry (snd (InvalidateCache ''alice'' demo_cached)) ''alice'' = None"
proof -
  have ne: "''alice'' \<noteq> ''Alice''" by simp
  have free: "lock demo_cached ''alice'' \<noteq> Some True" by (simp add: demo_cached_def)
  from ne identity_keys_verbatim [of "''Alice''" demo_cached demo_externals 1 None
      "''app''" "''view''" "[''x'']"]
  have "cache_entry (snd (EnforceByEmailInBatch demo_externals 1 None ''Alice'' ''app'' ''view''
      [''x''] demo_cached)) ''alice'' = cache_entry demo_cached ''alice'' \<and>
   cache_entry (snd (InvalidateCache ''Alice'' demo_cached)) ''alice'' =
     cache_entry demo_cached ''alice''"
    by simp
  moreover from free identity_keys_verbatim [of "''alice''" demo_cached demo_externals 1 None
      "''app''" "''view''" "[''x'']"]
  have "cache_entry (snd (InvalidateCache ''alice'' demo_cached)) ''alice'' = None"
    by simp
  ultimately show ?thesis by simp
qed

text \<open>
  C2 as stated fails: \<open>Alice\<close> and \<open>alice\<close> differ only in letter case and are two keys.
  The handle created for \<open>Alice\<close> is not one for \<open>alice\<close>; invalidating \<open>Alice\<close> leaves the
  cached decisions of \<open>alice\<close> in place; and a batch call for \<open>Alice\<close> stores its decisions
  under \<open>Alice\<close>, not under the lower-cased identity.
\<close>

theorem identity_keys_not_lower_cased:
  "ascii_lower ''Alice'' = ascii_lower ''alice'' \<and>
   getLockKey ''Alice'' \<noteq> ascii_lower ''Alice'' \<and>
   getLockKey ''Alice'' \<noteq> getLockKey ''alice'' \<and>
   lock (getEnforcerCacheLock (NewEnforcerImpl True) ''Alice'') ''Alice'' = Some False \<and>
   lock (getEnforcerCacheLock (NewEnforcerImpl True) ''Alice'') ''alice'' = None \<and>
   fst (InvalidateCache ''Alice'' demo_cached) = Returned True \<and>
   getCacheData (snd (InvalidateCache ''Alice'' demo_cached)) ''alice'' ''app'' ''view'' =
     Some [''a'' \<mapsto> True] \<and>
   getCacheData (snd (EnforceByEmailInBatch demo_externals 1 None ''Alice'' ''app'' ''view''
      [''x''] (NewEnforcerImpl True))) ''Alice'' ''app'' ''view'' \<noteq> None \<and>
   getCacheData (snd (EnforceByEmailInBatch demo_externals 1 None ''Alice'' ''app'' ''view''
      [''x''] (NewEnforcerImpl True))) ''alice'' ''app'' ''view'' = None"
proof -
  have l: "ascii_lower ''Alice'' = ascii_lower ''alice''"
    "getLockKey ''Alice'' \<noteq> ascii_lower ''Alice''"
    "getLockKey ''Alice'' \<noteq> getLockKey ''alice''"
    by (simp_all add: ascii_lower_def getLockKey_def)
  have h: "lock (getEnforcerCacheLock (NewEnforcerImpl True) ''Alice'') ''Alice'' = Some False"
    "lock (getEnforcerCacheLock (NewEnforcerImpl True) ''Alice'') ''alice'' = None"
    by (simp_all add: getEnforcerCacheLock_def getLockKey_def NewEnforcerImpl_def)
  have free: "lock demo_cached (getLockKey ''Alice'') \<noteq> Some True"
    by (simp add: demo_cached_def)
  have i1: "fst (InvalidateCache ''Alice'' demo_cached) = Returned True"
    by (simp add: InvalidateCache_result [OF free]) (simp add: demo_cached_def)
  have ne: "''alice'' \<noteq> ''Alice''" by simp
  have "cache_entry (snd (InvalidateCache ''Alice'' demo_cached)) ''alice'' =
      cache_entry demo_cached ''alice''"
    by (rule InvalidateCache_frame [OF ne])
  then have i2: "getCacheData (snd (InvalidateCache ''Alice'' demo_cached))
      ''alice'' ''app'' ''view'' = Some [''a'' \<mapsto> True]"
    by (simp add: getCacheData_cache_entry)
       (simp add: cache_entry_def demo_cached_def getCacheKey_def)
  let ?call = "EnforceByEmailInBatch demo_externals 1 None ''Alice'' ''app'' ''view''
      [''x''] (NewEnforcerImpl True)"
  have free2: "lock (NewEnforcerImpl True) (getLockKey ''Alice'') \<noteq> Some True"
    by (simp add: NewEnforcerImpl_def)
  have "0 \<le> configuredBatchSize 1 None" by (simp add: configuredBatchSize_def)
  from batch_returns [OF free2 this] obtain r where r: "fst ?call = Returned r"
    by blast
  have b1: "getCacheData (snd ?call) ''Alice'' ''app'' ''view'' \<noteq> None"
    by (simp add: batch_returned(1) [OF free2 r]) (simp add: NewEnforcerImpl_def)
  have "cache_entry (snd ?call) ''alice'' = cache_entry (NewEnforcerImpl True) ''alice''"
    by (rule batch_cache_frame [OF ne])
  then have b2: "getCacheData (snd ?call) ''alice'' ''app'' ''view'' = None"
    by (simp add: getCacheData_cache_entry) (simp add: cache_entry_def NewEnforcerImpl_def)
  from l h i1 i2 b1 b2 show ?thesis by simp
qed

section \<open>Repeated batch calls\<close>

lemma Cache_after_batch:
  "Cache (snd (EnforceByEmailInBatch x d atoi emailId resource action vals e)) = None \<longleftrightarrow>
   Cache e = None"
proof (cases "lock e (getLockKey emailId) = Some True")
  case True
  then show ?thesis by (simp add: batch_unfold_held)
next
  case False
  show ?thesis
    by (cases rule: batch_body_cases [of "configuredBatchSize d atoi"
          "e\<lparr>lock := (lock e)(getLockKey emailId \<mapsto> True)\<rparr>" emailId resource action vals x])
       (simp_all add: batch_unfold_free [OF False])
qed

lemma cached_or_uncached:
  "item \<in> set vals \<Longrightarrow> item \<notin> set (uncached e emailId resource action vals) \<Longrightarrow>
   cached_decisions e emailId resource action item \<noteq> None"
  by (cases "getCacheData e emailId resource action")
     (auto simp: uncached_def cached_decisions_def)

lemma uncached_all_cached:
  "getCacheData e emailId resource action = Some result \<Longrightarrow> set vals \<subseteq> dom result \<Longrightarrow>
   uncached e emailId resource action vals = []"
  by (auto simp: uncached_def filter_empty_conv)

lemma batch_covering_decides_all:
  assumes free: "lock e (getLockKey emailId) \<noteq> Some True"
    and ret: "fst (EnforceByEmailInBatch x d atoi emailId resource action vals e) = Returned r"
    and nn: "0 \<le> configuredBatchSize d atoi"
    and dv: "min (configuredBatchSize d atoi)
               (int (length (uncached e emailId resource action vals)))
             dvd int (length (uncached e emailId resource action vals))"
  shows "concat (workers r) = uncached e emailId resource action vals"
    and "set vals \<subseteq> dom (decisions r)"
proof -
  let ?rem = "uncached e emailId resource action vals"
  let ?n = "min (configuredBatchSize d atoi) (int (length ?rem))"
  note br = batch_returned [OF free ret]
  have "0 \<le> ?n" using nn by simp
  moreover have "?n \<le> int (length ?rem)" by simp
  ultimately obtain shards where "dispatch ?rem ?n 0 = Returned shards" "concat shards = ?rem"
    using dispatch_covers [OF _ dv] by blast
  with br(4) show c: "concat (workers r) = ?rem" by simp
  show "set vals \<subseteq> dom (decisions r)"
  proof
    fix item assume "item \<in> set vals"
    then show "item \<in> dom (decisions r)"
      using cached_or_uncached [of item vals e emailId resource action]
      by (cases "item \<in> set ?rem") (auto simp: br(3) run_workers_lookup c)
  qed
qed


text \<open>
  C4, as the code has it. With the cache enabled, the handle of the identity free, a batch
  size that is not negative, and a shard count \<open>n = min(batch size, total)\<close> that divides
  the number \<open>total\<close> of items the cache does not decide (as it does when the batch size is
  at least \<open>total\<close>), the first call returns a decision for every requested item, and a
  second call with the same arguments returns the same mapping, finds every item in the
  cache, has no item left and dispatches no worker. And no batch call ever divides by zero
  or slices out of range: the only panic is that of \<open>wg.Add\<close> on a negative batch size.
\<close>

theorem repeated_batch_is_cache_hit:
  "(Cache e \<noteq> None \<and> lock e (getLockKey emailId) \<noteq> Some True \<and>
    0 \<le> configuredBatchSize d atoi \<and>
    min (configuredBatchSize d atoi) (int (length (uncached e emailId resource action vals)))
      dvd int (length (uncached e emailId resource action vals)) \<longrightarrow>
    (\<exists>r1 r2.
       fst (EnforceByEmailInBatch x d atoi emailId resource action vals e) = Returned r1 \<and>
       fst (EnforceByEmailInBatch x d atoi emailId resource action vals
              (snd (EnforceByEmailInBatch x d atoi emailId resource action vals e))) =
         Returned r2 \<and>
       set vals \<subseteq> dom (decisions r1) \<and>
       decisions r2 = decisions r1 \<and> remaining r2 = [] \<and> workers r2 = [])) \<and>
   fst (EnforceByEmailInBatch x d atoi emailId resource action vals e) \<noteq> Panic DivideByZero \<and>
   fst (EnforceByEmailInBatch x d atoi emailId resource action vals e) \<noteq> Panic SliceBounds"
proof -
  let ?call1 = "EnforceByEmailInBatch x d atoi emailId resource action vals e"
  let ?e1 = "snd ?call1"
  let ?call2 = "EnforceByEmailInBatch x d atoi emailId resource action vals ?e1"
  have hit: "\<exists>r1 r2. fst ?call1 = Returned r1 \<and> fst ?call2 = Returned r2 \<and>
       set vals \<subseteq> dom (decisions r1) \<and>
       decisions r2 = decisions r1 \<and> remaining r2 = [] \<and> workers r2 = []"
    if en: "Cache e \<noteq> None" and free: "lock e (getLockKey emailId) \<noteq> Some True"
      and nn: "0 \<le> configuredBatchSize d atoi"
      and dv: "min (configuredBatchSize d atoi)
                 (int (length (uncached e emailId resource action vals)))
               dvd int (length (uncached e emailId resource action vals))"
  proof -
    from batch_returns [OF free nn] obtain r1 where r1: "fst ?call1 = Returned r1"
      by blast
    note all = batch_covering_decides_all [OF free r1 nn dv]
    from r1 have "lock ?e1 = (lock e)(getLockKey emailId := None)"
      by (simp add: lock_after_batch)
    then have free1: "lock ?e1 (getLockKey emailId) \<noteq> Some True" by simp
    from batch_returns [OF free1 nn] obtain r2 where r2: "fst ?call2 = Returned r2"
      by blast
    have g: "getCacheData ?e1 emailId resource action = Some (decisions r1)"
      using batch_returned(1) [OF free r1] en by simp
    have u: "uncached ?e1 emailId resource action vals = []"
      by (rule uncached_all_cached [OF g all(2)])
    have c: "cached_decisions ?e1 emailId resource action = decisions r1"
      by (simp add: cached_decisions_def g)
    note br2 = batch_returned [OF free1 r2]
    have rem2: "remaining r2 = []" by (simp add: br2(2) u)
    have "min (configuredBatchSize d atoi) (int (length ([]::string list))) = 0"
      using nn by simp
    with br2(4) have "dispatch [] 0 0 = Returned (workers r2)" by (simp add: u)
    then have w2: "workers r2 = []" by (simp add: dispatch_done)
    have d2: "decisions r2 = decisions r1" by (simp add: br2(3) w2 c)
    from r1 r2 all(2) d2 rem2 w2 show ?thesis by blast
  qed
  have np: "fst ?call1 \<noteq> Panic DivideByZero" "fst ?call1 \<noteq> Panic SliceBounds"
    using batch_panic [of x d atoi emailId resource action vals e] by auto
  from hit np show ?thesis by blast
qed


theorem repeated_batch_is_cache_hit_witness:
  "\<exists>r1 r2.
     fst (EnforceByEmailInBatch demo_externals 1 None ''alice'' ''app'' ''view''
            [''x'', ''y'', ''z''] (NewEnforcerImpl True)) = Returned r1 \<and>
     fst (EnforceByEmailInBatch demo_externals 1 None ''alice'' ''app'' ''view''
            [''x'', ''y'', ''z'']
            (snd (EnforceByEmailInBatch demo_externals 1 None ''alice'' ''app'' ''view''
                    [''x'', ''y'', ''z''] (NewEnforcerImpl True)))) = Returned r2 \<and>
     decisions r1 ''x'' = Some True \<and> decisions r1 ''y'' = Some False \<and>
     decisions r1 ''z'' = Some True \<and>
     decisions r2 = decisions r1 \<and> remaining r2 = [] \<and> workers r2 = []"
proof -
  let ?vals = "[''x'', ''y'', ''z'']"
  let ?e = "NewEnforcerImpl True"
  have en: "Cache ?e \<noteq> None" by (simp add: NewEnforcerImpl_def)
  have free: "lock ?e (getLockKey ''alice'') \<noteq> Some True" by (simp add: NewEnforcerImpl_def)
  have nn: "0 \<le> configuredBatchSize 1 None" by (simp add: configuredBatchSize_def)
  have u: "uncached ?e ''alice'' ''app'' ''view'' ?vals = ?vals"
    by (simp add: uncached_def getCacheData_def NewEnforcerImpl_def)
  have c: "cached_decisions ?e ''alice'' ''app'' ''view'' = Map.empty"
    by (simp add: cached_decisions_def getCacheData_def NewEnforcerImpl_def)
  have dv: "min (configuredBatchSize 1 None)
              (int (length (uncached ?e ''alice'' ''app'' ''view'' ?vals)))
            dvd int (length (uncached ?e ''alice'' ''app'' ''view'' ?vals))"
    by (simp add: u configuredBatchSize_def)
  from en free nn dv
    repeated_batch_is_cache_hit [of ?e "''alice''" 1 None "''app''" "''view''" ?vals
      demo_externals]
  obtain r1 r2 where
    r1: "fst (EnforceByEmailInBatch demo_externals 1 None ''alice'' ''app'' ''view''
            ?vals ?e) = Returned r1"
    and r2: "fst (EnforceByEmailInBatch demo_externals 1 None ''alice'' ''app'' ''view''
            ?vals (snd (EnforceByEmailInBatch demo_externals 1 None ''alice'' ''app'' ''view''
                    ?vals ?e))) = Returned r2"
    and same: "decisions r2 = decisions r1" "remaining r2 = []" "workers r2 = []"
    by blast
  have cw: "concat (workers r1) = ?vals"
    using batch_covering_decides_all(1) [OF free r1 nn dv] by (simp add: u)
  have d: "decisions r1 item =
     (if item \<in> set ?vals
      then Some (decision (EnforceByEmail demo_externals
             [Str (strings_ToLower demo_externals ''alice''), Str ''app'', Str ''view'',
              Str item]))
      else None)" for item
    by (simp only: batch_returned(3) [OF free r1] run_workers_lookup cw c)
  have "decisions r1 ''x'' = Some True" "decisions r1 ''y'' = Some False"
    "decisions r1 ''z'' = Some True"
    by (simp_all add: d EnforceByEmail_def enforceByEmail_def demo_externals_def
          handlePanic_def)
  with r1 r2 same show ?thesis by blast
qed

text \<open>
  C4 as stated fails: with the cache disabled nothing is stored, and the second call has
  all three items left and dispatches three workers again.
\<close>

theorem repeated_batch_without_cache:
  "map_option remaining (returned_of (fst (EnforceByEmailInBatch demo_externals 1 (Some 5)
      ''alice'' ''app'' ''view'' [''x'', ''y'', ''z'']
      (snd (EnforceByEmailInBatch demo_externals 1 (Some 5)
              ''alice'' ''app'' ''view'' [''x'', ''y'', ''z''] (NewEnforcerImpl False))))))
     = Some [''x'', ''y'', ''z''] \<and>
   map_option workers (returned_of (fst (EnforceByEmailInBatch demo_externals 1 (Some 5)
      ''alice'' ''app'' ''view'' [''x'', ''y'', ''z'']
      (snd (EnforceByEmailInBatch demo_externals 1 (Some 5)
              ''alice'' ''app'' ''view'' [''x'', ''y'', ''z''] (NewEnforcerImpl False))))))
     = Some [[''x''], [''y''], [''z'']]"
proof -
  let ?vals = "[''x'', ''y'', ''z'']"
  let ?e = "NewEnforcerImpl False"
  let ?call1 = "EnforceByEmailInBatch demo_externals 1 (Some 5)
      ''alice'' ''app'' ''view'' ?vals ?e"
  have free: "lock ?e (getLockKey ''alice'') \<noteq> Some True" by (simp add: NewEnforcerImpl_def)
  have nn: "0 \<le> configuredBatchSize 1 (Some 5)" by (simp add: configuredBatchSize_def)
  have "fst ?call1 \<noteq> Blocked" by (rule batch_completes [OF free])
  then have "lock (snd ?call1) = (lock ?e)(getLockKey ''alice'' := None)"
    by (rule lock_after_batch)
  then have free1: "lock (snd ?call1) (getLockKey ''alice'') \<noteq> Some True" by simp
  have "Cache (snd ?call1) = None"
    by (simp add: Cache_after_batch) (simp add: NewEnforcerImpl_def)
  then have u: "uncached (snd ?call1) ''alice'' ''app'' ''view'' ?vals = ?vals"
    by (simp add: uncached_def getCacheData_def)
  from batch_returns [OF free1 nn] obtain r2 where
    r2: "fst (EnforceByEmailInBatch demo_externals 1 (Some 5)
      ''alice'' ''app'' ''view'' ?vals (snd ?call1)) = Returned r2"
    by blast
  note br = batch_returned [OF free1 r2]
  have "dispatch ?vals 3 0 = Returned [[''x''], [''y''], [''z'']]"
    by (simp add: dispatch.simps quo_def slice_def)
  with br(4) have w: "workers r2 = [[''x''], [''y''], [''z'']]"
    by (simp add: u configuredBatchSize_def)
  have "remaining r2 = ?vals" by (simp add: br(2) u)
  with w show ?thesis by (simp add: r2 returned_of_def)
qed

end
